theory Spec2Isabelle
  imports Main "HOL-Library.Sublist" "HOL-Library.Multiset"
begin

section \<open>Data model\<close>

text \<open>
  Strings are lists of 8-bit characters, so the model covers the Latin-1 range of the
  UTF-16 code units that the program handles.

  \<open>MergePluginSettings\<close> is the interface of the same name. \<open>TFile\<close> and the folder tree are
  the host's types, with the fields the program reads: of a file its \<open>path\<close>, \<open>name\<close>
  (with the extension), \<open>basename\<close> (without it) and \<open>extension\<close>, of a folder its
  \<open>children\<close>.
\<close>

record MergePluginSettings =
  folderName :: string
  outputFolder :: string
  outputFileName :: string
  includeHidden :: bool
  excludedFiles :: string
  recursive :: bool
  showRibbonIcon :: bool

definition DEFAULT_SETTINGS :: MergePluginSettings where
  "DEFAULT_SETTINGS = \<lparr> folderName = '''', outputFolder = ''merged'',
     outputFileName = ''merged-output-{date}.md'', includeHidden = False,
     excludedFiles = '''', recursive = False, showRibbonIcon = True \<rparr>"

record TFile =
  path :: string
  name :: string
  basename :: string
  extension :: string

datatype TFolder = TFolder (folder_path: string) (folder_name: string) (children: "TAbstractFile list")
  and TAbstractFile = File TFile | Folder TFolder

section \<open>String operations of the language\<close>

text \<open>\<open>s.startsWith(p)\<close> and \<open>s.endsWith(p)\<close>.\<close>

definition startsWith :: "string \<Rightarrow> string \<Rightarrow> bool" where
  "startsWith s p = (take (length p) s = p)"

definition endsWith :: "string \<Rightarrow> string \<Rightarrow> bool" where
  "endsWith s p = (length p \<le> length s \<and> drop (length s - length p) s = p)"

section \<open>The file collector\<close>

text \<open>
  The glob matcher \<open>minimatch\<close> and the comparison \<open>localeCompare\<close> are library functions:
  they are parameters of the model.

  \<open>visit\<close> is the body of the \<open>for\<close> loop over \<open>current.children\<close>: a folder is pushed on
  the stack in recursive mode, a file that passes the four tests is appended to \<open>files\<close>,
  any other child is skipped. The stack is a list with its top at the head.
\<close>

definition selected ::
  "(string \<Rightarrow> string \<Rightarrow> bool) \<Rightarrow> MergePluginSettings \<Rightarrow> string \<Rightarrow> string list \<Rightarrow> TFile \<Rightarrow> bool" where
  "selected minimatch settings outputPath excludedPatterns child =
     (extension child = ''md'' \<and>
      path child \<noteq> outputPath \<and>
      \<not> list_ex (\<lambda>pattern. minimatch (path child) pattern) excludedPatterns \<and>
      (includeHidden settings \<or> \<not> startsWith (name child) ''.''))"

fun visit ::
  "(string \<Rightarrow> string \<Rightarrow> bool) \<Rightarrow> MergePluginSettings \<Rightarrow> string \<Rightarrow> string list \<Rightarrow>
   TFolder list \<times> TFile list \<Rightarrow> TAbstractFile \<Rightarrow> TFolder list \<times> TFile list" where
  "visit minimatch settings outputPath excludedPatterns (stack, files) (Folder d) =
     (if recursive settings then (d # stack, files) else (stack, files))"
| "visit minimatch settings outputPath excludedPatterns (stack, files) (File f) =
     (if selected minimatch settings outputPath excludedPatterns f
      then (stack, files @ [f]) else (stack, files))"

text \<open>The number of folders in a tree, the measure of the \<open>while\<close> loop.\<close>

fun folders_in :: "TFolder \<Rightarrow> nat" and folders_in_child :: "TAbstractFile \<Rightarrow> nat" where
  "folders_in (TFolder p n cs) = Suc (sum_list (map folders_in_child cs))"
| "folders_in_child (File f) = 0"
| "folders_in_child (Folder d) = folders_in d"

function walk ::
  "(string \<Rightarrow> string \<Rightarrow> bool) \<Rightarrow> MergePluginSettings \<Rightarrow> string \<Rightarrow> string list \<Rightarrow>
   TFolder list \<Rightarrow> TFile list \<Rightarrow> TFile list" where
  "walk minimatch settings outputPath excludedPatterns [] files = files"
| "walk minimatch settings outputPath excludedPatterns (current # stack) files =
     walk minimatch settings outputPath excludedPatterns
       (fst (foldl (visit minimatch settings outputPath excludedPatterns) (stack, files) (children current)))
       (snd (foldl (visit minimatch settings outputPath excludedPatterns) (stack, files) (children current)))"
  by pat_completeness auto
termination
proof (relation "measure (\<lambda>(mm, s, out, pats, stack, files). sum_list (map folders_in stack))")
  show "wf (measure (\<lambda>(mm, s, out, pats, stack, files). sum_list (map folders_in stack)))"
    by simp
next
  fix mm :: "string \<Rightarrow> string \<Rightarrow> bool" and s :: MergePluginSettings and out :: string
    and pats :: "string list" and current :: TFolder and stack :: "TFolder list"
    and files :: "TFile list"
  have pushed: "sum_list (map folders_in (fst (foldl (visit mm s out pats) (st, fs) cs)))
      \<le> sum_list (map folders_in st) + sum_list (map folders_in_child cs)" for st fs cs
  proof (induction cs arbitrary: st fs)
    case Nil
    show ?case by simp
  next
    case (Cons c cs)
    show ?case
    proof (cases c)
      case (File f)
      then show ?thesis using Cons.IH [of st] by (simp split: if_splits)
    next
      case (Folder d)
      then show ?thesis
        using Cons.IH [of "d # st" fs] Cons.IH [of st fs] by simp
    qed
  qed
  have "folders_in current = Suc (sum_list (map folders_in_child (children current)))"
    by (cases current) simp
  with pushed [of stack files "children current"]
  show "((mm, s, out, pats,
          fst (foldl (visit mm s out pats) (stack, files) (children current)),
          snd (foldl (visit mm s out pats) (stack, files) (children current))),
         (mm, s, out, pats, current # stack, files))
        \<in> measure (\<lambda>(mm, s, out, pats, stack, files). sum_list (map folders_in stack))"
    by (simp add: case_prod_beta)
qed

section \<open>Sorting\<close>

text \<open>
  \<open>Array.prototype.sort\<close> with a comparison function is a stable sort: \<open>sort_with\<close> inserts
  each element, from the last to the first, before the first element that does not
  compare below it.
\<close>

fun insert_sorted :: "('a \<Rightarrow> 'a \<Rightarrow> int) \<Rightarrow> 'a \<Rightarrow> 'a list \<Rightarrow> 'a list" where
  "insert_sorted compareFn x [] = [x]"
| "insert_sorted compareFn x (y # ys) =
     (if compareFn x y \<le> 0 then x # y # ys else y # insert_sorted compareFn x ys)"

definition sort_with :: "('a \<Rightarrow> 'a \<Rightarrow> int) \<Rightarrow> 'a list \<Rightarrow> 'a list" where
  "sort_with compareFn xs = foldr (insert_sorted compareFn) xs []"

definition collectMarkdownFiles ::
  "(string \<Rightarrow> string \<Rightarrow> bool) \<Rightarrow> (string \<Rightarrow> string \<Rightarrow> int) \<Rightarrow> MergePluginSettings \<Rightarrow>
   TFolder \<Rightarrow> string \<Rightarrow> string list \<Rightarrow> TFile list" where
  "collectMarkdownFiles minimatch localeCompare settings folder outputPath excludedPatterns =
     sort_with (\<lambda>a b. localeCompare (name a) (name b))
       (walk minimatch settings outputPath excludedPatterns [folder] [])"

section \<open>The tree, structurally\<close>

text \<open>
  The files that are children of a folder, the folders that are, and the files at any
  depth below a folder. \<open>reachable\<close> is the set of files the walk can meet: all of them in
  recursive mode, the children of the source folder otherwise.
\<close>

definition child_files :: "TAbstractFile list \<Rightarrow> TFile list" where
  "child_files cs = concat (map (\<lambda>c. case c of File f \<Rightarrow> [f] | Folder d \<Rightarrow> []) cs)"

definition child_folders :: "TAbstractFile list \<Rightarrow> TFolder list" where
  "child_folders cs = concat (map (\<lambda>c. case c of File f \<Rightarrow> [] | Folder d \<Rightarrow> [d]) cs)"

fun files_below :: "TFolder \<Rightarrow> TFile list" and files_below_child :: "TAbstractFile \<Rightarrow> TFile list" where
  "files_below (TFolder p n cs) = concat (map files_below_child cs)"
| "files_below_child (File f) = [f]"
| "files_below_child (Folder d) = files_below d"

fun subfolders :: "TFolder \<Rightarrow> TFolder list" and subfolders_child :: "TAbstractFile \<Rightarrow> TFolder list" where
  "subfolders (TFolder p n cs) = TFolder p n cs # concat (map subfolders_child cs)"
| "subfolders_child (File f) = []"
| "subfolders_child (Folder d) = subfolders d"

definition reachable :: "MergePluginSettings \<Rightarrow> TFolder \<Rightarrow> TFile set" where
  "reachable settings folder =
     (if recursive settings then set (files_below folder) else set (child_files (children folder)))"

section \<open>More string operations of the language\<close>

text \<open>
  \<open>trim\<close> removes white space and line terminators at both ends; in the 8-bit range these
  are the code units 9 to 13, 32 and 160. \<open>toLowerCase\<close> maps the upper-case letters of
  the range (\<open>A\<close> to \<open>Z\<close>, and 192 to 222 without 215) to the code unit 32 above.
\<close>

definition isWhiteSpace :: "char \<Rightarrow> bool" where
  "isWhiteSpace c = ((of_char c :: nat) \<in> {9, 10, 11, 12, 13, 32, 160})"

definition trim :: "string \<Rightarrow> string" where
  "trim s = rev (dropWhile isWhiteSpace (rev (dropWhile isWhiteSpace s)))"

definition isUpperCase :: "char \<Rightarrow> bool" where
  "isUpperCase c =
     ((65 \<le> (of_char c :: nat) \<and> (of_char c :: nat) \<le> 90) \<or>
      (192 \<le> (of_char c :: nat) \<and> (of_char c :: nat) \<le> 222 \<and> (of_char c :: nat) \<noteq> 215))"

definition toLowerCase_char :: "char \<Rightarrow> char" where
  "toLowerCase_char c = (if isUpperCase c then char_of ((of_char c :: nat) + 32) else c)"

definition toLowerCase :: "string \<Rightarrow> string" where
  "toLowerCase s = map toLowerCase_char s"

text \<open>
  \<open>s.split(sep)\<close> for a separator of one character: the pieces between the separators,
  of which there is always at least one.
\<close>

fun split :: "char \<Rightarrow> string \<Rightarrow> string list" where
  "split sep [] = [[]]"
| "split sep (c # cs) =
     (if c = sep then [] # split sep cs
      else (case split sep cs of [] \<Rightarrow> [[c]] | piece # pieces \<Rightarrow> (c # piece) # pieces))"

text \<open>
  \<open>s.replace(pattern, replacement)\<close> with a string pattern replaces the first occurrence
  only. The replacement is taken literally (the date has no \<open>$\<close> in it).
\<close>

fun replace :: "string \<Rightarrow> string \<Rightarrow> string \<Rightarrow> string" where
  "replace pattern replacement [] = (if pattern = [] then replacement else [])"
| "replace pattern replacement (c # cs) =
     (if prefix pattern (c # cs) then replacement @ drop (length pattern) (c # cs)
      else c # replace pattern replacement cs)"

text \<open>
  \<open>s.replace(/^\/+|\/+$/g, '')\<close> removes the run of slashes at the start and the run at the
  end.
\<close>

definition strip_slashes :: "string \<Rightarrow> string" where
  "strip_slashes s =
     rev (dropWhile (\<lambda>c. c = CHR ''/'') (rev (dropWhile (\<lambda>c. c = CHR ''/'') s)))"

section \<open>The destination path\<close>

text \<open>
  Lines 79 to 90 of \<open>mergeMarkdownFiles\<close>. The clock is a parameter: \<open>now\<close> is the text
  that \<open>new Date().toISOString()\<close> returns.
\<close>

definition today :: "string \<Rightarrow> string" where
  "today now = hd (split CHR ''T'' now)"

definition outputFileName_of :: "MergePluginSettings \<Rightarrow> string \<Rightarrow> string" where
  "outputFileName_of settings now =
     (let outputFileName = replace ''{date}'' (today now) (trim (outputFileName settings))
      in if \<not> endsWith (toLowerCase outputFileName) ''.md''
         then outputFileName @ ''.md'' else outputFileName)"

definition folderPath_of :: "MergePluginSettings \<Rightarrow> string" where
  "folderPath_of settings = strip_slashes (trim (outputFolder settings))"

definition outputPath_of :: "MergePluginSettings \<Rightarrow> string \<Rightarrow> string" where
  "outputPath_of settings now =
     (if folderPath_of settings \<noteq> []
      then folderPath_of settings @ ''/'' @ outputFileName_of settings now
      else outputFileName_of settings now)"

section \<open>The destination path in the words of the specification\<close>

text \<open>
  \<open>spec_resolveDestination\<close> follows the specification: substitute \<open>{date}\<close> in the trimmed
  template by the date, append \<open>.md\<close> unless the name ends with it in any letter case, strip
  the separators at both ends of the output folder, and join the two with one separator,
  or take the file name alone when the folder is empty. \<open>spec_substitute\<close> puts the value
  in the place of the placeholder wherever it stands in the template.
\<close>

function spec_substitute :: "string \<Rightarrow> string \<Rightarrow> string \<Rightarrow> string" where
  "spec_substitute placeholder v [] = []"
| "spec_substitute placeholder v (c # cs) =
     (if placeholder \<noteq> [] \<and> take (length placeholder) (c # cs) = placeholder
      then v @ spec_substitute placeholder v (drop (length placeholder) (c # cs))
      else c # spec_substitute placeholder v cs)"
  by pat_completeness auto
termination
  by (relation "measure (\<lambda>(placeholder, v, template). length template)") auto

text \<open>The number of places of a template at which the placeholder stands.\<close>

fun occurrences :: "string \<Rightarrow> string \<Rightarrow> nat" where
  "occurrences placeholder [] = 0"
| "occurrences placeholder (c # cs) =
     (if take (length placeholder) (c # cs) = placeholder then 1 else 0) + occurrences placeholder cs"

definition spec_has_md_suffix :: "string \<Rightarrow> bool" where
  "spec_has_md_suffix n =
     (3 \<le> length n \<and> drop (length n - 3) n \<in> {''.md'', ''.mD'', ''.Md'', ''.MD''})"

fun spec_strip_leading :: "string \<Rightarrow> string" where
  "spec_strip_leading [] = []"
| "spec_strip_leading (c # cs) = (if c = CHR ''/'' then spec_strip_leading cs else c # cs)"

definition spec_strip_separators :: "string \<Rightarrow> string" where
  "spec_strip_separators s = rev (spec_strip_leading (rev (spec_strip_leading s)))"

definition spec_resolveDestination :: "MergePluginSettings \<Rightarrow> string \<Rightarrow> string" where
  "spec_resolveDestination config date =
     (let substituted = spec_substitute ''{date}'' date (trim (outputFileName config));
          fileName = (if spec_has_md_suffix substituted then substituted else substituted @ ''.md'');
          folder = spec_strip_separators (outputFolder config)
      in if folder = [] then fileName else folder @ ''/'' @ fileName)"

section \<open>The vault\<close>

text \<open>
  The vault is the host's: the model takes its operations as parameters, over any type
  \<open>'v\<close> of vault states. A query returns what it finds in a state; an operation that
  writes returns the next state, or the error it throws (and then leaves the state as it
  was). \<open>call\<close> is the record of what the program asks of the host, in order: the writes,
  the notices and the errors sent to the console.
\<close>

datatype error = Error string

record 'v Vault =
  getRoot :: "'v \<Rightarrow> TFolder"
  getFolderByPath :: "'v \<Rightarrow> string \<Rightarrow> TFolder option"
  getFileByPath :: "'v \<Rightarrow> string \<Rightarrow> TFile option"
  read :: "'v \<Rightarrow> TFile \<Rightarrow> error + string"
  modify :: "'v \<Rightarrow> TFile \<Rightarrow> string \<Rightarrow> error + 'v"
  create :: "'v \<Rightarrow> string \<Rightarrow> string \<Rightarrow> error + 'v"
  createFolder :: "'v \<Rightarrow> string \<Rightarrow> error + 'v"

datatype call =
  CreateFolder string
| Create string string
| Modify TFile string
| Notice string
| ConsoleError error

section \<open>Creating the output folder\<close>

text \<open>
  \<open>ensure_parts\<close> is the \<open>for\<close> loop of \<open>ensureFolderExists\<close> over the parts of the path,
  with \<open>currentPath\<close>, the vault state and the calls made so far. The result is the error
  thrown, if any, the vault state and the calls. \<open>next_path\<close> is the assignment to
  \<open>currentPath\<close> (line 139), \<open>currentPaths\<close> lists the values that \<open>currentPath\<close> takes, and
  \<open>folder_chain\<close> is that list for a whole path.
\<close>

definition next_path :: "string \<Rightarrow> string \<Rightarrow> string" where
  "next_path currentPath part = (if currentPath \<noteq> [] then currentPath @ ''/'' @ part else part)"

fun ensure_parts ::
  "'v Vault \<Rightarrow> string list \<Rightarrow> string \<Rightarrow> 'v \<Rightarrow> call list \<Rightarrow> error option \<times> 'v \<times> call list" where
  "ensure_parts vault [] currentPath v calls = (None, v, calls)"
| "ensure_parts vault (part # parts) currentPath v calls =
     (case getFolderByPath vault v (next_path currentPath part) of
        Some exists \<Rightarrow>
          ensure_parts vault parts (next_path currentPath part) v calls
      | None \<Rightarrow>
          (case createFolder vault v (next_path currentPath part) of
             Inl e \<Rightarrow>
               (Some e, v,
                calls @ [CreateFolder (next_path currentPath part)])
           | Inr v' \<Rightarrow>
               ensure_parts vault parts (next_path currentPath part) v'
                 (calls @ [CreateFolder (next_path currentPath part)])))"

definition ensureFolderExists ::
  "'v Vault \<Rightarrow> string \<Rightarrow> 'v \<Rightarrow> call list \<Rightarrow> error option \<times> 'v \<times> call list" where
  "ensureFolderExists vault p v calls =
     (if p = [] then (None, v, calls) else ensure_parts vault (split CHR ''/'' p) [] v calls)"

fun currentPaths :: "string list \<Rightarrow> string \<Rightarrow> string list" where
  "currentPaths [] currentPath = []"
| "currentPaths (part # parts) currentPath =
     next_path currentPath part # currentPaths parts (next_path currentPath part)"

definition folder_chain :: "string \<Rightarrow> string list" where
  "folder_chain p = (if p = [] then [] else currentPaths (split CHR ''/'' p) [])"

section \<open>The merge\<close>

text \<open>
  \<open>mergeMarkdownFiles\<close> in three parts: the source folder (lines 66 to 77), the text of the
  merged file (lines 112 to 118) and the run from the exclusion patterns on (lines 100 to
  131). The result is the error that escapes, if any (a failed \<open>read\<close> is not caught),
  the vault state at the end and the calls made.

  The folder handle is resolved once, before the output folder is created; the model lets
  the walk run on the tree of that moment.
\<close>

definition source_folder :: "'v Vault \<Rightarrow> MergePluginSettings \<Rightarrow> 'v \<Rightarrow> TFolder option" where
  "source_folder vault settings v =
     (if trim (folderName settings) = [] then Some (getRoot vault v)
      else getFolderByPath vault v (folderName settings))"

definition excludedPatterns_of :: "MergePluginSettings \<Rightarrow> string list" where
  "excludedPatterns_of settings =
     filter (\<lambda>s. s \<noteq> []) (map trim (split CHR '','' (excludedFiles settings)))"

fun read_files :: "'v Vault \<Rightarrow> 'v \<Rightarrow> TFile list \<Rightarrow> string \<Rightarrow> error + string" where
  "read_files vault v [] mergedContent = Inr mergedContent"
| "read_files vault v (file # files) mergedContent =
     (case read vault v file of
        Inl e \<Rightarrow> Inl e
      | Inr content \<Rightarrow>
          read_files vault v files
            (mergedContent @ ''# '' @ basename file @ [CHR 0x0A, CHR 0x0A] @ trim content @
               [CHR 0x0A, CHR 0x0A]))"

text \<open>The section that the loop appends for a file with a given content (line 117).\<close>

definition section_text :: "TFile \<Rightarrow> string \<Rightarrow> string" where
  "section_text file content =
     ''# '' @ basename file @ [CHR 0x0A, CHR 0x0A] @ trim content @ [CHR 0x0A, CHR 0x0A]"

fun decimal :: "nat \<Rightarrow> string" where
  "decimal n = (if n < 10 then [char_of (48 + n)] else decimal (n div 10) @ [char_of (48 + n mod 10)])"

definition merge_collected ::
  "'v Vault \<Rightarrow> (string \<Rightarrow> string \<Rightarrow> bool) \<Rightarrow> (string \<Rightarrow> string \<Rightarrow> int) \<Rightarrow> string \<Rightarrow>
   MergePluginSettings \<Rightarrow> TFolder \<Rightarrow> 'v \<Rightarrow> call list \<Rightarrow> error option \<times> 'v \<times> call list" where
  "merge_collected vault minimatch localeCompare now settings folder v calls =
     (let outputPath = outputPath_of settings now;
          files = collectMarkdownFiles minimatch localeCompare settings folder outputPath
                    (excludedPatterns_of settings)
      in if length files = 0 then (None, v, calls @ [Notice ''No markdown files found to merge.''])
         else
           (case read_files vault v files [] of
              Inl e \<Rightarrow> (Some e, v, calls)
            | Inr mergedContent \<Rightarrow>
                (case getFileByPath vault v outputPath of
                   Some existingFile \<Rightarrow>
                     (case modify vault v existingFile mergedContent of
                        Inl err \<Rightarrow>
                          (None, v, calls @ [Modify existingFile mergedContent, ConsoleError err,
                             Notice ''Failed to write merged file.''])
                      | Inr v' \<Rightarrow>
                          (None, v', calls @ [Modify existingFile mergedContent,
                             Notice (''Merged '' @ decimal (length files) @ '' files into '' @ outputPath)]))
                 | None \<Rightarrow>
                     (case create vault v outputPath mergedContent of
                        Inl err \<Rightarrow>
                          (None, v, calls @ [Create outputPath mergedContent, ConsoleError err,
                             Notice ''Failed to write merged file.''])
                      | Inr v' \<Rightarrow>
                          (None, v', calls @ [Create outputPath mergedContent,
                             Notice (''Merged '' @ decimal (length files) @ '' files into '' @ outputPath)])))))"

definition mergeMarkdownFiles ::
  "'v Vault \<Rightarrow> (string \<Rightarrow> string \<Rightarrow> bool) \<Rightarrow> (string \<Rightarrow> string \<Rightarrow> int) \<Rightarrow> string \<Rightarrow>
   MergePluginSettings \<Rightarrow> 'v \<Rightarrow> error option \<times> 'v \<times> call list" where
  "mergeMarkdownFiles vault minimatch localeCompare now settings v =
     (case source_folder vault settings v of
        None \<Rightarrow>
          (None, v, [Notice (''Folder '' @ [CHR 0x22] @ folderName settings @ [CHR 0x22] @
             '' not found or is not a folder.'')])
      | Some folder \<Rightarrow>
          (case ensureFolderExists vault (folderPath_of settings) v [] of
             (Some e, v', calls) \<Rightarrow>
               (None, v', calls @ [ConsoleError e,
                  Notice (''Failed to create output folder: '' @ folderPath_of settings)])
           | (None, v', calls) \<Rightarrow>
               merge_collected vault minimatch localeCompare now settings folder v' calls))"

text \<open>
  What the proofs ask of the host: a folder that has been created is found afterwards, and
  creating a folder removes no other folder.
\<close>

definition createFolder_creates :: "'v Vault \<Rightarrow> bool" where
  "createFolder_creates vault \<longleftrightarrow>
     (\<forall>v p v'. createFolder vault v p = Inr v' \<longrightarrow>
        getFolderByPath vault v' p \<noteq> None \<and>
        (\<forall>q. getFolderByPath vault v q \<noteq> None \<longrightarrow> getFolderByPath vault v' q \<noteq> None))"

text \<open>The parts of a path joined again with slashes.\<close>

fun join_parts :: "string list \<Rightarrow> string" where
  "join_parts [] = []"
| "join_parts [part] = part"
| "join_parts (part # parts) = part @ ''/'' @ join_parts parts"

section \<open>Concrete inputs\<close>

text \<open>
  Two stand-ins for the library functions, for evaluating the model on concrete trees: a
  comparison by code units, and a matcher for patterns without wildcards (on such a pattern
  a glob matches the equal path only).
\<close>

fun codeunit_compare :: "string \<Rightarrow> string \<Rightarrow> int" where
  "codeunit_compare [] [] = 0"
| "codeunit_compare [] (y # ys) = - 1"
| "codeunit_compare (x # xs) [] = 1"
| "codeunit_compare (x # xs) (y # ys) =
     (if (of_char x :: nat) < of_char y then - 1
      else if (of_char y :: nat) < of_char x then 1
      else codeunit_compare xs ys)"

definition literal_match :: "string \<Rightarrow> string \<Rightarrow> bool" where
  "literal_match p pattern = (p = pattern)"

definition md_file :: "string \<Rightarrow> string \<Rightarrow> TFile" where
  "md_file dir base = \<lparr> path = dir @ base @ ''.md'', name = base @ ''.md'', basename = base,
     extension = ''md'' \<rparr>"

definition example_root :: TFolder where
  "example_root = TFolder ''/'' '''' [
     File (md_file '''' ''a''),
     File (md_file '''' ''a-b''),
     File (md_file '''' ''.draft''),
     File \<lparr> path = ''todo.txt'', name = ''todo.txt'', basename = ''todo'', extension = ''txt'' \<rparr>,
     Folder (TFolder ''.hidden'' ''.hidden'' [File (md_file ''.hidden/'' ''note'')]),
     Folder (TFolder ''merged'' ''merged'' [File (md_file ''merged/'' ''out'')])]"

text \<open>Two trees with the same two files, both named \<open>n.md\<close>, in folders in either order.\<close>

definition example_xy :: TFolder where
  "example_xy = TFolder ''/'' '''' [
     Folder (TFolder ''x'' ''x'' [File (md_file ''x/'' ''n'')]),
     Folder (TFolder ''y'' ''y'' [File (md_file ''y/'' ''n'')])]"

definition example_yx :: TFolder where
  "example_yx = TFolder ''/'' '''' [
     Folder (TFolder ''y'' ''y'' [File (md_file ''y/'' ''n'')]),
     Folder (TFolder ''x'' ''x'' [File (md_file ''x/'' ''n'')])]"

section \<open>A vault in memory\<close>

text \<open>
  A small vault for evaluating the model: the folders are a list of paths, every file is
  a child of the root and has a text.
\<close>

record memory =
  folders :: "string list"
  documents :: "(TFile \<times> string) list"

definition memory_vault :: "memory Vault" where
  "memory_vault = \<lparr>
     getRoot = (\<lambda>m. TFolder ''/'' '''' (map (\<lambda>(f, text). File f) (documents m))),
     getFolderByPath = (\<lambda>m p. if p \<in> set (folders m) then Some (TFolder p p []) else None),
     getFileByPath = (\<lambda>m p. find (\<lambda>f. path f = p) (map fst (documents m))),
     read = (\<lambda>m f. case map_of (documents m) f of None \<Rightarrow> Inl (Error ''File not found'') | Some text \<Rightarrow> Inr text),
     modify = (\<lambda>m f text. Inr (m\<lparr>documents := map (\<lambda>(g, t). if g = f then (g, text) else (g, t)) (documents m)\<rparr>)),
     create = (\<lambda>m p text.
       Inr (m\<lparr>documents := documents m @ [(\<lparr>path = p, name = p, basename = p, extension = ''md''\<rparr>, text)]\<rparr>)),
     createFolder = (\<lambda>m p.
       if p \<in> set (folders m) then Inl (Error ''Folder already exists.'')
       else Inr (m\<lparr>folders := folders m @ [p]\<rparr>)) \<rparr>"

definition example_memory :: memory where
  "example_memory = \<lparr> folders = [''a''], documents = [(md_file '''' ''B'', ''hello''), (md_file '''' ''a'', '' world '')] \<rparr>"

section \<open>What the walk collects\<close>

lemma child_files_simps [simp]:
  "child_files [] = []"
  "child_files (File f # cs) = f # child_files cs"
  "child_files (Folder d # cs) = child_files cs"
  by (simp_all add: child_files_def)

lemma child_folders_simps [simp]:
  "child_folders [] = []"
  "child_folders (File f # cs) = child_folders cs"
  "child_folders (Folder d # cs) = d # child_folders cs"
  by (simp_all add: child_folders_def)

lemma files_below_children:
  "set (files_below d) =
     set (child_files (children d)) \<union> (\<Union>d' \<in> set (child_folders (children d)). set (files_below d'))"
proof -
  have "(\<Union>c \<in> set cs. set (files_below_child c)) =
      set (child_files cs) \<union> (\<Union>d' \<in> set (child_folders cs). set (files_below d'))" for cs
  proof (induction cs)
    case Nil
    show ?case by simp
  next
    case (Cons c cs)
    then show ?case by (cases c) auto
  qed
  then show ?thesis by (cases d) simp
qed

lemma foldl_visit_files:
  "set (snd (foldl (visit mm s out pats) (stack, files) cs)) =
     set files \<union> {f \<in> set (child_files cs). selected mm s out pats f}"
proof (induction cs arbitrary: stack files)
  case Nil
  show ?case by simp
next
  case (Cons c cs)
  show ?case by (cases c) (auto simp: Cons.IH)
qed

lemma foldl_visit_stack:
  "set (fst (foldl (visit mm s out pats) (stack, files) cs)) =
     set stack \<union> (if recursive s then set (child_folders cs) else {})"
proof (induction cs arbitrary: stack files)
  case Nil
  show ?case by simp
next
  case (Cons c cs)
  show ?case by (cases c) (auto simp: Cons.IH)
qed

lemma reachable_children:
  "reachable s d =
     set (child_files (children d)) \<union>
     (\<Union>d' \<in> (if recursive s then set (child_folders (children d)) else {}). reachable s d')"
  using files_below_children [of d] by (simp add: reachable_def)

lemma set_walk:
  "set (walk mm s out pats stack files) =
     set files \<union> {f \<in> (\<Union>d \<in> set stack. reachable s d). selected mm s out pats f}"
proof (induction mm s out pats stack files rule: walk.induct)
  case (1 mm s out pats files)
  show ?case by simp
next
  case (2 mm s out pats current stack files)
  show ?case
    unfolding walk.simps 2 foldl_visit_files foldl_visit_stack
    using reachable_children [of s current] by auto
qed

lemma set_insert_sorted [simp]: "set (insert_sorted c x xs) = insert x (set xs)"
  by (induction xs) auto

lemma set_sort_with [simp]: "set (sort_with c xs) = set xs"
  by (induction xs) (simp_all add: sort_with_def)

lemma set_collectMarkdownFiles:
  "set (collectMarkdownFiles mm lc s folder out pats) =
     {f \<in> reachable s folder. selected mm s out pats f}"
  unfolding collectMarkdownFiles_def set_sort_with set_walk by simp

lemma sorted_insert_sorted:
  assumes total: "\<And>a b. c a b \<le> 0 \<or> c b a \<le> 0"
    and trans: "\<And>a b d. c a b \<le> 0 \<Longrightarrow> c b d \<le> 0 \<Longrightarrow> c a d \<le> 0"
  shows "sorted_wrt (\<lambda>a b. c a b \<le> 0) xs \<Longrightarrow> sorted_wrt (\<lambda>a b. c a b \<le> 0) (insert_sorted c x xs)"
proof (induction xs)
  case Nil
  show ?case by simp
next
  case (Cons y ys)
  show ?case
  proof (cases "c x y \<le> 0")
    case True
    with Cons.prems trans [of x y] show ?thesis by auto
  next
    case False
    with total [of x y] have "c y x \<le> 0" by simp
    with False Cons show ?thesis by auto
  qed
qed

lemma sorted_sort_with:
  assumes total: "\<And>a b. c a b \<le> 0 \<or> c b a \<le> 0"
    and trans: "\<And>a b d. c a b \<le> 0 \<Longrightarrow> c b d \<le> 0 \<Longrightarrow> c a d \<le> 0"
  shows "sorted_wrt (\<lambda>a b. c a b \<le> 0) (sort_with c xs)"
proof (induction xs)
  case Nil
  show ?case by (simp add: sort_with_def)
next
  case (Cons x xs)
  have "sort_with c (x # xs) = insert_sorted c x (sort_with c xs)"
    by (simp add: sort_with_def)
  with Cons sorted_insert_sorted [of c "sort_with c xs" x, OF total trans]
  show ?case by simp
qed

lemma codeunit_compare_Cons:
  "codeunit_compare (x # xs) (y # ys) \<le> 0 \<longleftrightarrow>
     (of_char x :: nat) < of_char y \<or> ((of_char x :: nat) = of_char y \<and> codeunit_compare xs ys \<le> 0)"
  by auto

lemma codeunit_compare_total: "codeunit_compare a b \<le> 0 \<or> codeunit_compare b a \<le> 0"
proof (induction a b rule: codeunit_compare.induct)
  case (4 x xs y ys)
  then show ?case unfolding codeunit_compare_Cons by (cases "(of_char x :: nat) < of_char y") auto
qed simp_all

lemma codeunit_compare_trans:
  "codeunit_compare a b \<le> 0 \<Longrightarrow> codeunit_compare b d \<le> 0 \<Longrightarrow> codeunit_compare a d \<le> 0"
proof (induction a arbitrary: b d)
  case Nil
  then show ?case by (cases d) simp_all
next
  case (Cons x xs)
  from Cons.prems(1) obtain y ys where b: "b = y # ys" by (cases b) auto
  from Cons.prems(2) b obtain z zs where d: "d = z # zs" by (cases d) auto
  from Cons.prems have
    xy: "(of_char x :: nat) < of_char y \<or> ((of_char x :: nat) = of_char y \<and> codeunit_compare xs ys \<le> 0)"
    and yz: "(of_char y :: nat) < of_char z \<or> ((of_char y :: nat) = of_char z \<and> codeunit_compare ys zs \<le> 0)"
    unfolding b d codeunit_compare_Cons by blast+
  show ?case
  proof (cases "(of_char x :: nat) < of_char z")
    case True
    then show ?thesis unfolding d codeunit_compare_Cons by blast
  next
    case False
    with xy yz have eq: "(of_char x :: nat) = of_char y" "(of_char y :: nat) = of_char z"
      and le: "codeunit_compare xs ys \<le> 0" "codeunit_compare ys zs \<le> 0"
      by linarith+
    from Cons.IH [OF le] eq show ?thesis unfolding d codeunit_compare_Cons by simp
  qed
qed

lemma subfolders_self: "d \<in> set (subfolders d)"
  by (cases d) simp

lemma files_below_subfolders:
  "d \<in> set (subfolders folder) \<Longrightarrow> set (files_below d) \<subseteq> set (files_below folder)"
  and files_below_subfolders_child:
  "d \<in> set (subfolders_child c) \<Longrightarrow> set (files_below d) \<subseteq> set (files_below_child c)"
proof (induction folder and c rule: subfolders_subfolders_child.induct)
  case (1 p n cs)
  then show ?case by fastforce
next
  case (2 f)
  then show ?case by simp
next
  case (3 d')
  then show ?case by simp
qed

lemma child_files_iff: "f \<in> set (child_files cs) \<longleftrightarrow> File f \<in> set cs"
proof (induction cs)
  case Nil
  show ?case by simp
next
  case (Cons c cs)
  then show ?case by (cases c) auto
qed

lemma map_name_insert_sorted:
  "map name (insert_sorted (\<lambda>a b. lc (name a) (name b)) x ys) =
     insert_sorted lc (name x) (map name ys)"
  by (induction ys) simp_all

lemma map_name_sort_with:
  "map name (sort_with (\<lambda>a b. lc (name a) (name b)) xs) = sort_with lc (map name xs)"
  by (induction xs) (simp_all add: sort_with_def map_name_insert_sorted)

lemma filter_insert_sorted:
  assumes trans: "\<And>a b d. c a b \<le> 0 \<Longrightarrow> c b d \<le> 0 \<Longrightarrow> c a d \<le> 0"
    and tie: "\<And>y. P y \<longleftrightarrow> c z y \<le> 0 \<and> c y z \<le> 0"
  shows "filter P (insert_sorted c x ys) = (if P x then x # filter P ys else filter P ys)"
proof (induction ys)
  case Nil
  show ?case by simp
next
  case (Cons y ys)
  show ?case
  proof (cases "c x y \<le> 0")
    case True
    then show ?thesis by simp
  next
    case False
    have "\<not> (P x \<and> P y)"
    proof
      assume "P x \<and> P y"
      then have "c x z \<le> 0" and "c z y \<le> 0" by (simp_all add: tie)
      then have "c x y \<le> 0" by (rule trans)
      with False show False by simp
    qed
    with False Cons.IH show ?thesis by auto
  qed
qed

lemma filter_sort_with:
  assumes trans: "\<And>a b d. c a b \<le> 0 \<Longrightarrow> c b d \<le> 0 \<Longrightarrow> c a d \<le> 0"
    and tie: "\<And>y. P y \<longleftrightarrow> c z y \<le> 0 \<and> c y z \<le> 0"
  shows "filter P (sort_with c xs) = filter P xs"
proof (induction xs)
  case Nil
  show ?case by (simp add: sort_with_def)
next
  case (Cons x xs)
  have "sort_with c (x # xs) = insert_sorted c x (sort_with c xs)"
    by (simp add: sort_with_def)
  with Cons filter_insert_sorted [of c P z x "sort_with c xs", OF trans tie]
  show ?case by simp
qed

lemma mset_insert_sorted: "mset (insert_sorted c x xs) = add_mset x (mset xs)"
  by (induction xs) simp_all

lemma mset_sort_with: "mset (sort_with c xs) = mset xs"
  by (induction xs) (simp_all add: sort_with_def mset_insert_sorted)

lemma sorted_wrt_mset_unique:
  assumes "\<And>x y. x \<in> set xs \<Longrightarrow> y \<in> set xs \<Longrightarrow> R x y \<Longrightarrow> R y x \<Longrightarrow> x = y"
  shows "sorted_wrt R xs \<Longrightarrow> sorted_wrt R ys \<Longrightarrow> mset xs = mset ys \<Longrightarrow> xs = ys"
  using assms
proof (induction xs arbitrary: ys)
  case Nil
  then show ?case by simp
next
  case (Cons x xs)
  from Cons.prems(3) obtain y ys' where ys: "ys = y # ys'"
    by (cases ys) auto
  have sets: "set (x # xs) = set (y # ys')"
    using Cons.prems(3) ys by (metis mset_eq_setD)
  have "x = y"
  proof (rule ccontr)
    assume ne: "x \<noteq> y"
    with sets have "x \<in> set ys'" and "y \<in> set xs" by auto
    with Cons.prems(1,2) ys have "R y x" and "R x y" by auto
    with Cons.prems(4) [of x y] \<open>y \<in> set xs\<close> have "x = y" by simp
    with ne show False by simp
  qed
  with Cons.prems(3) ys have rest: "mset xs = mset ys'" by simp
  have "xs = ys'"
  proof (rule Cons.IH)
    show "sorted_wrt R xs" using Cons.prems(1) by simp
    show "sorted_wrt R ys'" using Cons.prems(2) ys by simp
    show "mset xs = mset ys'" by (rule rest)
    show "\<And>a b. a \<in> set xs \<Longrightarrow> b \<in> set xs \<Longrightarrow> R a b \<Longrightarrow> R b a \<Longrightarrow> a = b"
      using Cons.prems(4) by simp
  qed
  with \<open>x = y\<close> ys show ?case by simp
qed

lemma read_files_sections:
  "(\<forall>f \<in> set files. read vault v f = Inr (text_of f)) \<Longrightarrow>
   read_files vault v files mergedContent =
     Inr (mergedContent @ concat (map (\<lambda>f. section_text f (text_of f)) files))"
  by (induction files arbitrary: mergedContent) (simp_all add: section_text_def)

lemma merge_collected_writes:
  assumes "collectMarkdownFiles minimatch localeCompare settings folder (outputPath_of settings now)
      (excludedPatterns_of settings) \<noteq> []"
    and "\<forall>f \<in> set (collectMarkdownFiles minimatch localeCompare settings folder
      (outputPath_of settings now) (excludedPatterns_of settings)). read vault v f = Inr (text_of f)"
  shows "take (Suc (length calls))
      (snd (snd (merge_collected vault minimatch localeCompare now settings folder v calls))) =
    calls @ [case getFileByPath vault v (outputPath_of settings now) of
        Some existingFile \<Rightarrow> Modify existingFile
          (concat (map (\<lambda>f. section_text f (text_of f))
            (collectMarkdownFiles minimatch localeCompare settings folder (outputPath_of settings now)
              (excludedPatterns_of settings))))
      | None \<Rightarrow> Create (outputPath_of settings now)
          (concat (map (\<lambda>f. section_text f (text_of f))
            (collectMarkdownFiles minimatch localeCompare settings folder (outputPath_of settings now)
              (excludedPatterns_of settings))))]"
  using assms(1) read_files_sections [OF assms(2), of "[]"]
  by (simp add: merge_collected_def Let_def split: option.splits sum.splits)

section \<open>The claims on the file collector\<close>

text \<open>
  C1, as amended. The collector sorts with \<open>a.name.localeCompare(b.name)\<close>. Whenever the
  comparison is a total preorder:
  \<^item> the returned sequence is ascending in the files' names, that is the names with their
    extension;
  \<^item> the name is all that the sort reads: the names returned are the names of the files
    met, sorted;
  \<^item> the files whose names compare equal to a given name come in the order in which the
    walk met them;
  \<^item> another tree in which the walk meets the same files, in whatever order, gives the same
    sequence, provided no two different files met have names that compare equal;
  \<^item> in a merge that reaches the write, the text written is made of the sections of the
    returned files, in the order of the returned sequence.
\<close>

theorem collect_sorted_by_name:
  assumes "\<forall>a b. localeCompare a b \<le> 0 \<or> localeCompare b a \<le> 0"
    and "\<forall>a b c. localeCompare a b \<le> 0 \<longrightarrow> localeCompare b c \<le> 0 \<longrightarrow> localeCompare a c \<le> 0"
  shows "sorted_wrt (\<lambda>a b. localeCompare (name a) (name b) \<le> 0)
      (collectMarkdownFiles minimatch localeCompare settings folder outputPath excludedPatterns)
    \<and> map name (collectMarkdownFiles minimatch localeCompare settings folder outputPath excludedPatterns) =
        sort_with localeCompare (map name (walk minimatch settings outputPath excludedPatterns [folder] []))
    \<and> filter (\<lambda>f. localeCompare n (name f) \<le> 0 \<and> localeCompare (name f) n \<le> 0)
        (collectMarkdownFiles minimatch localeCompare settings folder outputPath excludedPatterns) =
      filter (\<lambda>f. localeCompare n (name f) \<le> 0 \<and> localeCompare (name f) n \<le> 0)
        (walk minimatch settings outputPath excludedPatterns [folder] [])
    \<and> (mset (walk minimatch settings outputPath excludedPatterns [folder'] []) =
          mset (walk minimatch settings outputPath excludedPatterns [folder] []) \<and>
        (\<forall>f \<in> set (walk minimatch settings outputPath excludedPatterns [folder] []).
         \<forall>g \<in> set (walk minimatch settings outputPath excludedPatterns [folder] []).
           localeCompare (name f) (name g) \<le> 0 \<and> localeCompare (name g) (name f) \<le> 0 \<longrightarrow> f = g) \<longrightarrow>
        collectMarkdownFiles minimatch localeCompare settings folder' outputPath excludedPatterns =
          collectMarkdownFiles minimatch localeCompare settings folder outputPath excludedPatterns)
    \<and> (source_folder vault settings v = Some folder \<and>
        ensureFolderExists vault (folderPath_of settings) v [] = (None, v1, calls) \<and>
        collectMarkdownFiles minimatch localeCompare settings folder (outputPath_of settings now)
          (excludedPatterns_of settings) \<noteq> [] \<and>
        (\<forall>f \<in> set (collectMarkdownFiles minimatch localeCompare settings folder
           (outputPath_of settings now) (excludedPatterns_of settings)).
           read vault v1 f = Inr (text_of f)) \<longrightarrow>
        take (Suc (length calls))
          (snd (snd (mergeMarkdownFiles vault minimatch localeCompare now settings v))) =
        calls @ [case getFileByPath vault v1 (outputPath_of settings now) of
            Some existingFile \<Rightarrow> Modify existingFile
              (concat (map (\<lambda>f. section_text f (text_of f))
                (collectMarkdownFiles minimatch localeCompare settings folder
                  (outputPath_of settings now) (excludedPatterns_of settings))))
          | None \<Rightarrow> Create (outputPath_of settings now)
              (concat (map (\<lambda>f. section_text f (text_of f))
                (collectMarkdownFiles minimatch localeCompare settings folder
                  (outputPath_of settings now) (excludedPatterns_of settings))))])"
proof -
  let ?c = "\<lambda>a b. localeCompare (name a) (name b)"
  have total: "\<And>a b. ?c a b \<le> 0 \<or> ?c b a \<le> 0"
    using assms(1) by blast
  have trans: "\<And>a b d. ?c a b \<le> 0 \<Longrightarrow> ?c b d \<le> 0 \<Longrightarrow> ?c a d \<le> 0"
    using assms(2) by blast
  have sorted: "sorted_wrt (\<lambda>a b. ?c a b \<le> 0)
      (collectMarkdownFiles minimatch localeCompare settings d outputPath excludedPatterns)" for d
    unfolding collectMarkdownFiles_def by (rule sorted_sort_with [of ?c, OF total trans])
  have names: "map name (collectMarkdownFiles minimatch localeCompare settings folder outputPath excludedPatterns) =
      sort_with localeCompare (map name (walk minimatch settings outputPath excludedPatterns [folder] []))"
    unfolding collectMarkdownFiles_def by (rule map_name_sort_with)
  have ties: "filter (\<lambda>f. localeCompare n (name f) \<le> 0 \<and> localeCompare (name f) n \<le> 0)
        (collectMarkdownFiles minimatch localeCompare settings folder outputPath excludedPatterns) =
      filter (\<lambda>f. localeCompare n (name f) \<le> 0 \<and> localeCompare (name f) n \<le> 0)
        (walk minimatch settings outputPath excludedPatterns [folder] [])"
  proof -
    show ?thesis
      unfolding collectMarkdownFiles_def
      by (rule filter_sort_with
          [of ?c _ "\<lparr>path = [], name = n, basename = [], extension = []\<rparr>", OF trans]) simp_all
  qed
  have same: "collectMarkdownFiles minimatch localeCompare settings folder' outputPath excludedPatterns =
      collectMarkdownFiles minimatch localeCompare settings folder outputPath excludedPatterns"
    if walks: "mset (walk minimatch settings outputPath excludedPatterns [folder'] []) =
        mset (walk minimatch settings outputPath excludedPatterns [folder] [])"
      and apart: "\<forall>f \<in> set (walk minimatch settings outputPath excludedPatterns [folder] []).
        \<forall>g \<in> set (walk minimatch settings outputPath excludedPatterns [folder] []).
          localeCompare (name f) (name g) \<le> 0 \<and> localeCompare (name g) (name f) \<le> 0 \<longrightarrow> f = g"
  proof (rule sorted_wrt_mset_unique [where R = "\<lambda>a b. ?c a b \<le> 0"])
    show "sorted_wrt (\<lambda>a b. ?c a b \<le> 0)
        (collectMarkdownFiles minimatch localeCompare settings folder' outputPath excludedPatterns)"
      by (rule sorted)
    show "sorted_wrt (\<lambda>a b. ?c a b \<le> 0)
        (collectMarkdownFiles minimatch localeCompare settings folder outputPath excludedPatterns)"
      by (rule sorted)
    show "mset (collectMarkdownFiles minimatch localeCompare settings folder' outputPath excludedPatterns) =
        mset (collectMarkdownFiles minimatch localeCompare settings folder outputPath excludedPatterns)"
      using walks by (simp add: collectMarkdownFiles_def mset_sort_with)
  next
    fix f g
    assume "f \<in> set (collectMarkdownFiles minimatch localeCompare settings folder' outputPath excludedPatterns)"
      and "g \<in> set (collectMarkdownFiles minimatch localeCompare settings folder' outputPath excludedPatterns)"
    then have "f \<in> set (walk minimatch settings outputPath excludedPatterns [folder] [])"
      and "g \<in> set (walk minimatch settings outputPath excludedPatterns [folder] [])"
      using mset_eq_setD [OF walks] by (simp_all add: collectMarkdownFiles_def)
    moreover assume "?c f g \<le> 0" and "?c g f \<le> 0"
    ultimately show "f = g" using apart by blast
  qed
  have written: "take (Suc (length calls))
          (snd (snd (mergeMarkdownFiles vault minimatch localeCompare now settings v))) =
        calls @ [case getFileByPath vault v1 (outputPath_of settings now) of
            Some existingFile \<Rightarrow> Modify existingFile
              (concat (map (\<lambda>f. section_text f (text_of f))
                (collectMarkdownFiles minimatch localeCompare settings folder
                  (outputPath_of settings now) (excludedPatterns_of settings))))
          | None \<Rightarrow> Create (outputPath_of settings now)
              (concat (map (\<lambda>f. section_text f (text_of f))
                (collectMarkdownFiles minimatch localeCompare settings folder
                  (outputPath_of settings now) (excludedPatterns_of settings))))]"
    if src: "source_folder vault settings v = Some folder"
      and ens: "ensureFolderExists vault (folderPath_of settings) v [] = (None, v1, calls)"
      and some: "collectMarkdownFiles minimatch localeCompare settings folder (outputPath_of settings now)
          (excludedPatterns_of settings) \<noteq> []"
      and reads: "\<forall>f \<in> set (collectMarkdownFiles minimatch localeCompare settings folder
           (outputPath_of settings now) (excludedPatterns_of settings)).
           read vault v1 f = Inr (text_of f)"
  proof -
    have "mergeMarkdownFiles vault minimatch localeCompare now settings v =
        merge_collected vault minimatch localeCompare now settings folder v1 calls"
      using src ens by (simp add: mergeMarkdownFiles_def)
    with merge_collected_writes [OF some reads, of calls] show ?thesis by simp
  qed
  from sorted [of folder] names ties same written show ?thesis by blast
qed

theorem collect_sorted_by_name_witness:
  "sorted_wrt (\<lambda>a b. codeunit_compare (name a) (name b) \<le> 0)
     (collectMarkdownFiles literal_match codeunit_compare DEFAULT_SETTINGS example_root
        ''merged/out.md'' [])
   \<and> map name (collectMarkdownFiles literal_match codeunit_compare DEFAULT_SETTINGS example_root
        ''merged/out.md'' []) = [''a-b.md'', ''a.md'']
   \<and> collectMarkdownFiles literal_match codeunit_compare DEFAULT_SETTINGS
        (TFolder ''/'' '''' [File (md_file '''' ''a-b''), File (md_file '''' ''a'')]) ''merged/out.md'' [] =
      collectMarkdownFiles literal_match codeunit_compare DEFAULT_SETTINGS
        (TFolder ''/'' '''' [File (md_file '''' ''a''), File (md_file '''' ''a-b'')]) ''merged/out.md'' []
   \<and> take 2 (snd (snd (mergeMarkdownFiles memory_vault literal_match codeunit_compare
        ''2024-01-01T09:30:00.000Z'' DEFAULT_SETTINGS example_memory))) =
      [CreateFolder ''merged'',
       Create ''merged/merged-output-2024-01-01.md''
         (''# B'' @ [CHR 0x0A, CHR 0x0A] @ ''hello'' @ [CHR 0x0A, CHR 0x0A] @
          ''# a'' @ [CHR 0x0A, CHR 0x0A] @ ''world'' @ [CHR 0x0A, CHR 0x0A])]"
proof -
  have codeunit_total: "\<forall>a b. codeunit_compare a b \<le> 0 \<or> codeunit_compare b a \<le> 0"
    using codeunit_compare_total by blast
  have codeunit_trans: "\<forall>a b c. codeunit_compare a b \<le> 0 \<longrightarrow> codeunit_compare b c \<le> 0 \<longrightarrow>
      codeunit_compare a c \<le> 0"
    using codeunit_compare_trans by blast
  have p1: "sorted_wrt (\<lambda>a b. codeunit_compare (name a) (name b) \<le> 0)
     (collectMarkdownFiles literal_match codeunit_compare DEFAULT_SETTINGS example_root
        ''merged/out.md'' [])"
    by (rule conjunct1 [OF collect_sorted_by_name [where localeCompare = codeunit_compare,
        OF codeunit_total codeunit_trans]])
  have p2: "map name (collectMarkdownFiles literal_match codeunit_compare DEFAULT_SETTINGS example_root
        ''merged/out.md'' []) = [''a-b.md'', ''a.md'']"
    by (simp add: collectMarkdownFiles_def example_root_def DEFAULT_SETTINGS_def md_file_def
        selected_def startsWith_def sort_with_def)
  let ?ab = "TFolder ''/'' '''' [File (md_file '''' ''a''), File (md_file '''' ''a-b'')]"
  let ?ba = "TFolder ''/'' '''' [File (md_file '''' ''a-b''), File (md_file '''' ''a'')]"
  have ab: "walk literal_match DEFAULT_SETTINGS ''merged/out.md'' [] [?ab] [] =
      [md_file '''' ''a'', md_file '''' ''a-b'']"
    and ba: "walk literal_match DEFAULT_SETTINGS ''merged/out.md'' [] [?ba] [] =
      [md_file '''' ''a-b'', md_file '''' ''a'']"
    by (simp_all add: DEFAULT_SETTINGS_def md_file_def selected_def startsWith_def)
  have same: "mset (walk literal_match DEFAULT_SETTINGS ''merged/out.md'' [] [?ba] []) =
      mset (walk literal_match DEFAULT_SETTINGS ''merged/out.md'' [] [?ab] [])"
    unfolding ab ba by simp
  have apart: "\<forall>f \<in> set (walk literal_match DEFAULT_SETTINGS ''merged/out.md'' [] [?ab] []).
      \<forall>g \<in> set (walk literal_match DEFAULT_SETTINGS ''merged/out.md'' [] [?ab] []).
        codeunit_compare (name f) (name g) \<le> 0 \<and> codeunit_compare (name g) (name f) \<le> 0 \<longrightarrow> f = g"
    unfolding ab by (simp add: md_file_def)
  note independent = collect_sorted_by_name [where localeCompare = codeunit_compare
      and minimatch = literal_match and settings = DEFAULT_SETTINGS and folder = ?ab
      and outputPath = "''merged/out.md''" and excludedPatterns = "[]" and folder' = ?ba,
      OF codeunit_total codeunit_trans, THEN conjunct2, THEN conjunct2, THEN conjunct2,
      THEN conjunct1, THEN mp, OF conjI, OF same apart]
  have p3: "collectMarkdownFiles literal_match codeunit_compare DEFAULT_SETTINGS ?ba ''merged/out.md'' [] =
      collectMarkdownFiles literal_match codeunit_compare DEFAULT_SETTINGS ?ab ''merged/out.md'' []"
    by (rule independent)
  let ?now = "''2024-01-01T09:30:00.000Z''"
  let ?folder = "TFolder ''/'' '''' [File (md_file '''' ''B''), File (md_file '''' ''a'')]"
  let ?v1 = "example_memory\<lparr>folders := [''a'', ''merged'']\<rparr>"
  let ?text = "\<lambda>f. if f = md_file '''' ''B'' then ''hello'' else '' world ''"
  have src: "source_folder memory_vault DEFAULT_SETTINGS example_memory = Some ?folder"
    by (simp add: source_folder_def DEFAULT_SETTINGS_def trim_def memory_vault_def example_memory_def)
  have fp: "folderPath_of DEFAULT_SETTINGS = ''merged''"
    by (simp add: folderPath_of_def DEFAULT_SETTINGS_def trim_def strip_slashes_def isWhiteSpace_def)
  have ens: "ensureFolderExists memory_vault (folderPath_of DEFAULT_SETTINGS) example_memory [] =
      (None, ?v1, [CreateFolder ''merged''])"
    unfolding fp
    by (simp add: ensureFolderExists_def memory_vault_def next_path_def example_memory_def)
  have out: "outputPath_of DEFAULT_SETTINGS ?now = ''merged/merged-output-2024-01-01.md''"
    by (simp add: outputPath_of_def outputFileName_of_def folderPath_of_def DEFAULT_SETTINGS_def
        today_def trim_def isWhiteSpace_def strip_slashes_def endsWith_def toLowerCase_def
        toLowerCase_char_def isUpperCase_def Let_def)
  have pats: "excludedPatterns_of DEFAULT_SETTINGS = []"
    by (simp add: excludedPatterns_of_def DEFAULT_SETTINGS_def trim_def)
  have files: "collectMarkdownFiles literal_match codeunit_compare DEFAULT_SETTINGS ?folder
      (outputPath_of DEFAULT_SETTINGS ?now) (excludedPatterns_of DEFAULT_SETTINGS) =
      [md_file '''' ''B'', md_file '''' ''a'']"
    unfolding out pats
    by (simp add: collectMarkdownFiles_def DEFAULT_SETTINGS_def md_file_def selected_def
        startsWith_def sort_with_def)
  have some: "collectMarkdownFiles literal_match codeunit_compare DEFAULT_SETTINGS ?folder
      (outputPath_of DEFAULT_SETTINGS ?now) (excludedPatterns_of DEFAULT_SETTINGS) \<noteq> []"
    unfolding files by simp
  have reads: "\<forall>f \<in> set (collectMarkdownFiles literal_match codeunit_compare DEFAULT_SETTINGS ?folder
      (outputPath_of DEFAULT_SETTINGS ?now) (excludedPatterns_of DEFAULT_SETTINGS)).
      read memory_vault ?v1 f = Inr (?text f)"
    unfolding files by (simp add: memory_vault_def example_memory_def md_file_def)
  have absent: "getFileByPath memory_vault ?v1 (outputPath_of DEFAULT_SETTINGS ?now) = None"
    unfolding out by (simp add: memory_vault_def example_memory_def md_file_def)
  have sections: "concat (map (\<lambda>f. section_text f (?text f)) [md_file '''' ''B'', md_file '''' ''a'']) =
      ''# B'' @ [CHR 0x0A, CHR 0x0A] @ ''hello'' @ [CHR 0x0A, CHR 0x0A] @
      ''# a'' @ [CHR 0x0A, CHR 0x0A] @ ''world'' @ [CHR 0x0A, CHR 0x0A]"
    by (simp add: section_text_def md_file_def trim_def isWhiteSpace_def)
  note written = collect_sorted_by_name [where localeCompare = codeunit_compare
      and minimatch = literal_match and settings = DEFAULT_SETTINGS and folder = ?folder
      and vault = memory_vault and v = example_memory and ?v1.0 = ?v1
      and calls = "[CreateFolder ''merged'']" and now = ?now and text_of = ?text,
      OF codeunit_total codeunit_trans, THEN conjunct2, THEN conjunct2, THEN conjunct2,
      THEN conjunct2, THEN mp, OF conjI [OF src conjI [OF ens conjI [OF some reads]]]]
  have "take (Suc (length [CreateFolder ''merged'']))
      (snd (snd (mergeMarkdownFiles memory_vault literal_match codeunit_compare ?now DEFAULT_SETTINGS
        example_memory))) =
    [CreateFolder ''merged''] @ [case getFileByPath memory_vault ?v1 (outputPath_of DEFAULT_SETTINGS ?now) of
        Some existingFile \<Rightarrow> Modify existingFile
          (concat (map (\<lambda>f. section_text f (?text f))
            (collectMarkdownFiles literal_match codeunit_compare DEFAULT_SETTINGS ?folder
              (outputPath_of DEFAULT_SETTINGS ?now) (excludedPatterns_of DEFAULT_SETTINGS))))
      | None \<Rightarrow> Create (outputPath_of DEFAULT_SETTINGS ?now)
          (concat (map (\<lambda>f. section_text f (?text f))
            (collectMarkdownFiles literal_match codeunit_compare DEFAULT_SETTINGS ?folder
              (outputPath_of DEFAULT_SETTINGS ?now) (excludedPatterns_of DEFAULT_SETTINGS))))]"
    by (rule written)
  then have p4: "take 2 (snd (snd (mergeMarkdownFiles memory_vault literal_match codeunit_compare
        ?now DEFAULT_SETTINGS example_memory))) =
      [CreateFolder ''merged'',
       Create ''merged/merged-output-2024-01-01.md''
         (''# B'' @ [CHR 0x0A, CHR 0x0A] @ ''hello'' @ [CHR 0x0A, CHR 0x0A] @
          ''# a'' @ [CHR 0x0A, CHR 0x0A] @ ''world'' @ [CHR 0x0A, CHR 0x0A])]"
    using absent files sections by (simp add: out numeral_2_eq_2)
  from p1 p2 p3 p4 show ?thesis by (intro conjI)
qed

text \<open>
  C1 as stated fails in two ways. The sequence is not always ascending in the base names:
  the files \<open>a.md\<close> and \<open>a-b.md\<close> come out as \<open>a-b\<close>, \<open>a\<close>, since \<open>-\<close> sorts before \<open>.\<close>
  (by code units, and in the root collation of \<open>localeCompare\<close> as well), while the base
  name \<open>a\<close> is a prefix of \<open>a-b\<close> and sorts before it. And the sequence is not always
  independent of the order in the tree: two files of the same name come out in the order
  in which the walk meets them, so the trees \<open>example_xy\<close> and \<open>example_yx\<close>, which hold the
  same files, give different sequences.
\<close>

theorem collect_sorted_by_basename_counterexample:
  "\<not> sorted_wrt (\<lambda>a b. codeunit_compare (basename a) (basename b) \<le> 0)
     (collectMarkdownFiles literal_match codeunit_compare DEFAULT_SETTINGS example_root
        ''merged/out.md'' [])
   \<and> set (files_below example_xy) = set (files_below example_yx)
   \<and> collectMarkdownFiles literal_match codeunit_compare (DEFAULT_SETTINGS\<lparr>recursive := True\<rparr>)
        example_xy ''merged/out.md'' [] \<noteq>
      collectMarkdownFiles literal_match codeunit_compare (DEFAULT_SETTINGS\<lparr>recursive := True\<rparr>)
        example_yx ''merged/out.md'' []"
proof (intro conjI)
  show "\<not> sorted_wrt (\<lambda>a b. codeunit_compare (basename a) (basename b) \<le> 0)
     (collectMarkdownFiles literal_match codeunit_compare DEFAULT_SETTINGS example_root
        ''merged/out.md'' [])"
    by (simp add: collectMarkdownFiles_def example_root_def DEFAULT_SETTINGS_def md_file_def
        selected_def startsWith_def sort_with_def)
  show "set (files_below example_xy) = set (files_below example_yx)"
    by (auto simp: example_xy_def example_yx_def)
  show "collectMarkdownFiles literal_match codeunit_compare (DEFAULT_SETTINGS\<lparr>recursive := True\<rparr>)
        example_xy ''merged/out.md'' [] \<noteq>
      collectMarkdownFiles literal_match codeunit_compare (DEFAULT_SETTINGS\<lparr>recursive := True\<rparr>)
        example_yx ''merged/out.md'' []"
    by (simp add: collectMarkdownFiles_def example_xy_def example_yx_def DEFAULT_SETTINGS_def
        md_file_def selected_def startsWith_def sort_with_def)
qed

text \<open>
  C2. No file of the returned sequence has the path \<open>outputPath\<close>, whatever the tree, the
  patterns and the settings.
\<close>

theorem collect_excludes_outputPath:
  "\<forall>f \<in> set (collectMarkdownFiles minimatch localeCompare settings folder outputPath excludedPatterns).
     path f \<noteq> outputPath"
  by (simp add: set_collectMarkdownFiles selected_def)

theorem collect_excludes_outputPath_witness:
  "md_file ''merged/'' ''note'' \<in> set (collectMarkdownFiles literal_match codeunit_compare
       (DEFAULT_SETTINGS\<lparr>recursive := True\<rparr>)
       (TFolder ''merged'' ''merged'' [File (md_file ''merged/'' ''out''), File (md_file ''merged/'' ''note'')])
       ''merged/out.md'' [])
   \<and> md_file ''merged/'' ''out'' \<notin> set (collectMarkdownFiles literal_match codeunit_compare
       (DEFAULT_SETTINGS\<lparr>recursive := True\<rparr>)
       (TFolder ''merged'' ''merged'' [File (md_file ''merged/'' ''out''), File (md_file ''merged/'' ''note'')])
       ''merged/out.md'' [])"
proof
  show "md_file ''merged/'' ''note'' \<in> set (collectMarkdownFiles literal_match codeunit_compare
       (DEFAULT_SETTINGS\<lparr>recursive := True\<rparr>)
       (TFolder ''merged'' ''merged'' [File (md_file ''merged/'' ''out''), File (md_file ''merged/'' ''note'')])
       ''merged/out.md'' [])"
    by (simp add: set_collectMarkdownFiles reachable_def selected_def DEFAULT_SETTINGS_def
        md_file_def startsWith_def)
  have "path (md_file ''merged/'' ''out'') = ''merged/out.md''"
    by (simp add: md_file_def)
  with collect_excludes_outputPath [of literal_match codeunit_compare
      "DEFAULT_SETTINGS\<lparr>recursive := True\<rparr>"
      "TFolder ''merged'' ''merged'' [File (md_file ''merged/'' ''out''), File (md_file ''merged/'' ''note'')]"
      "''merged/out.md''" "[]"]
  show "md_file ''merged/'' ''out'' \<notin> set (collectMarkdownFiles literal_match codeunit_compare
       (DEFAULT_SETTINGS\<lparr>recursive := True\<rparr>)
       (TFolder ''merged'' ''merged'' [File (md_file ''merged/'' ''out''), File (md_file ''merged/'' ''note'')])
       ''merged/out.md'' [])"
    by blast
qed

text \<open>
  C3. With \<open>recursive\<close> off, the returned files are children of the source folder itself:
  exactly those children that are files and pass the tests. A file in a subfolder is not
  among them, whatever its name and whatever the patterns.
\<close>

theorem collect_nonrecursive_direct_children:
  "\<not> recursive settings \<Longrightarrow>
   set (collectMarkdownFiles minimatch localeCompare settings folder outputPath excludedPatterns) =
     {f. File f \<in> set (children folder) \<and> selected minimatch settings outputPath excludedPatterns f}"
  by (auto simp: set_collectMarkdownFiles reachable_def child_files_iff)

theorem collect_nonrecursive_direct_children_witness:
  "\<not> recursive DEFAULT_SETTINGS \<and>
   md_file ''.hidden/'' ''note'' \<notin>
     set (collectMarkdownFiles literal_match codeunit_compare DEFAULT_SETTINGS example_root ''merged/out.md'' [])
   \<and> md_file '''' ''a'' \<in>
     set (collectMarkdownFiles literal_match codeunit_compare DEFAULT_SETTINGS example_root ''merged/out.md'' [])"
proof -
  have off: "\<not> recursive DEFAULT_SETTINGS"
    by (simp add: DEFAULT_SETTINGS_def)
  show ?thesis
    unfolding collect_nonrecursive_direct_children [OF off]
    by (simp add: DEFAULT_SETTINGS_def example_root_def md_file_def selected_def startsWith_def)
qed

text \<open>
  C6. A file that the walk meets (\<open>reachable\<close>) and that passes the extension test, the test
  against \<open>outputPath\<close> and the hidden-name test is in the returned sequence exactly when
  no pattern of the list matches its path: one matching pattern excludes it.
\<close>

theorem collect_exclusion_patterns:
  assumes "f \<in> reachable settings folder"
    and "extension f = ''md''"
    and "path f \<noteq> outputPath"
    and "includeHidden settings \<or> \<not> startsWith (name f) ''.''"
  shows "f \<in> set (collectMarkdownFiles minimatch localeCompare settings folder outputPath excludedPatterns)
    \<longleftrightarrow> \<not> (\<exists>pattern \<in> set excludedPatterns. minimatch (path f) pattern)"
  using assms by (simp add: set_collectMarkdownFiles selected_def list_ex_iff)

theorem collect_exclusion_patterns_witness:
  "md_file '''' ''a'' \<notin> set (collectMarkdownFiles literal_match codeunit_compare DEFAULT_SETTINGS
       example_root ''merged/out.md'' [''b.md'', ''a.md''])
   \<and> md_file '''' ''a-b'' \<in> set (collectMarkdownFiles literal_match codeunit_compare DEFAULT_SETTINGS
       example_root ''merged/out.md'' [''b.md'', ''a.md''])"
proof -
  have a: "md_file '''' ''a'' \<in> reachable DEFAULT_SETTINGS example_root"
    and ab: "md_file '''' ''a-b'' \<in> reachable DEFAULT_SETTINGS example_root"
    by (simp_all add: reachable_def DEFAULT_SETTINGS_def example_root_def)
  have ext: "extension (md_file '''' ''a'') = ''md''" "extension (md_file '''' ''a-b'') = ''md''"
    and out: "path (md_file '''' ''a'') \<noteq> ''merged/out.md''"
      "path (md_file '''' ''a-b'') \<noteq> ''merged/out.md''"
    and dot: "includeHidden DEFAULT_SETTINGS \<or> \<not> startsWith (name (md_file '''' ''a'')) ''.''"
      "includeHidden DEFAULT_SETTINGS \<or> \<not> startsWith (name (md_file '''' ''a-b'')) ''.''"
    by (simp_all add: md_file_def startsWith_def)
  show ?thesis
    unfolding collect_exclusion_patterns [OF a ext(1) out(1) dot(1)]
      collect_exclusion_patterns [OF ab ext(2) out(2) dot(2)]
    by (simp add: literal_match_def md_file_def)
qed

text \<open>
  C7. With \<open>includeHidden\<close> off, no returned file has a name that starts with a dot. With
  \<open>includeHidden\<close> on, the returned files are the files the walk meets that have the
  extension \<open>md\<close>, a path other than \<open>outputPath\<close> and a path no pattern matches: the name
  plays no part.
\<close>

theorem collect_hidden_files:
  "(\<not> includeHidden settings \<longrightarrow>
      (\<forall>f \<in> set (collectMarkdownFiles minimatch localeCompare settings folder outputPath excludedPatterns).
         \<not> startsWith (name f) ''.''))
   \<and> (includeHidden settings \<longrightarrow>
      set (collectMarkdownFiles minimatch localeCompare settings folder outputPath excludedPatterns) =
        {f \<in> reachable settings folder. extension f = ''md'' \<and> path f \<noteq> outputPath \<and>
           \<not> (\<exists>pattern \<in> set excludedPatterns. minimatch (path f) pattern)})"
  by (auto simp: set_collectMarkdownFiles selected_def list_ex_iff)

theorem collect_hidden_files_witness:
  "md_file '''' ''.draft'' \<notin> set (collectMarkdownFiles literal_match codeunit_compare
       DEFAULT_SETTINGS example_root ''merged/out.md'' [])
   \<and> md_file '''' ''.draft'' \<in> set (collectMarkdownFiles literal_match codeunit_compare
       (DEFAULT_SETTINGS\<lparr>includeHidden := True\<rparr>) example_root ''merged/out.md'' [])"
proof
  have off: "\<not> includeHidden DEFAULT_SETTINGS"
    by (simp add: DEFAULT_SETTINGS_def)
  have "startsWith (name (md_file '''' ''.draft'')) ''.''"
    by (simp add: md_file_def startsWith_def)
  with off collect_hidden_files [of DEFAULT_SETTINGS literal_match codeunit_compare example_root
      "''merged/out.md''" "[]"]
  show "md_file '''' ''.draft'' \<notin> set (collectMarkdownFiles literal_match codeunit_compare
       DEFAULT_SETTINGS example_root ''merged/out.md'' [])"
    by blast
next
  have on: "includeHidden (DEFAULT_SETTINGS\<lparr>includeHidden := True\<rparr>)"
    by simp
  have eq: "set (collectMarkdownFiles literal_match codeunit_compare
       (DEFAULT_SETTINGS\<lparr>includeHidden := True\<rparr>) example_root ''merged/out.md'' []) =
     {f \<in> reachable (DEFAULT_SETTINGS\<lparr>includeHidden := True\<rparr>) example_root.
        extension f = ''md'' \<and> path f \<noteq> ''merged/out.md'' \<and>
        \<not> (\<exists>pattern \<in> set []. literal_match (path f) pattern)}"
    using on collect_hidden_files [of "DEFAULT_SETTINGS\<lparr>includeHidden := True\<rparr>" literal_match
      codeunit_compare example_root "''merged/out.md''" "[]"]
    by blast
  show "md_file '''' ''.draft'' \<in> set (collectMarkdownFiles literal_match codeunit_compare
       (DEFAULT_SETTINGS\<lparr>includeHidden := True\<rparr>) example_root ''merged/out.md'' [])"
    unfolding eq
    by (simp add: reachable_def DEFAULT_SETTINGS_def example_root_def md_file_def)
qed

text \<open>
  C9. In recursive mode the walk descends into every folder below the source folder,
  whatever the folder's name: a file that is a child of any such folder, one named with a
  leading dot included, is returned when the file itself passes the tests. The hidden-name
  test reads the name of the file only.
\<close>

theorem collect_descends_hidden_folders:
  assumes "recursive settings"
    and "d \<in> set (subfolders folder)"
    and "File f \<in> set (children d)"
    and "selected minimatch settings outputPath excludedPatterns f"
  shows "f \<in> set (collectMarkdownFiles minimatch localeCompare settings folder outputPath excludedPatterns)"
proof -
  from assms(3) have "f \<in> set (files_below d)"
    using files_below_children [of d] by (simp add: child_files_iff)
  with files_below_subfolders [OF assms(2)] have "f \<in> set (files_below folder)"
    by blast
  with assms(1,4) show ?thesis
    by (simp add: set_collectMarkdownFiles reachable_def)
qed

theorem collect_descends_hidden_folders_witness:
  "startsWith (folder_name (TFolder ''.hidden'' ''.hidden'' [File (md_file ''.hidden/'' ''note'')])) ''.''
   \<and> \<not> includeHidden (DEFAULT_SETTINGS\<lparr>recursive := True\<rparr>)
   \<and> md_file ''.hidden/'' ''note'' \<in> set (collectMarkdownFiles literal_match codeunit_compare
       (DEFAULT_SETTINGS\<lparr>recursive := True\<rparr>) example_root ''merged/out.md'' [])"
proof -
  have r: "recursive (DEFAULT_SETTINGS\<lparr>recursive := True\<rparr>)"
    by simp
  have d: "TFolder ''.hidden'' ''.hidden'' [File (md_file ''.hidden/'' ''note'')]
      \<in> set (subfolders example_root)"
    by (simp add: example_root_def)
  have f: "File (md_file ''.hidden/'' ''note'')
      \<in> set (children (TFolder ''.hidden'' ''.hidden'' [File (md_file ''.hidden/'' ''note'')]))"
    by simp
  have sel: "selected literal_match (DEFAULT_SETTINGS\<lparr>recursive := True\<rparr>) ''merged/out.md'' []
      (md_file ''.hidden/'' ''note'')"
    by (simp add: selected_def md_file_def startsWith_def DEFAULT_SETTINGS_def)
  from collect_descends_hidden_folders [OF r d f sel, of codeunit_compare]
  show ?thesis
    by (simp add: startsWith_def DEFAULT_SETTINGS_def)
qed

section \<open>The destination path, compared\<close>

lemma toLowerCase_char_eq:
  "toLowerCase_char c = x \<longleftrightarrow>
     (if isUpperCase c then (of_char c :: nat) + 32 = of_char x else c = x)"
proof (cases "isUpperCase c")
  case False
  then show ?thesis by (simp add: toLowerCase_char_def)
next
  case True
  then have small: "(of_char c :: nat) + 32 < 256"
    by (auto simp: isUpperCase_def)
  have "toLowerCase_char c = char_of ((of_char c :: nat) + 32)"
    using True by (simp add: toLowerCase_char_def)
  moreover have "char_of ((of_char c :: nat) + 32) = x \<longleftrightarrow>
      (of_char (char_of ((of_char c :: nat) + 32) :: char) :: nat) = of_char x"
    by (simp only: of_char_eq_iff)
  moreover have "(of_char (char_of ((of_char c :: nat) + 32) :: char) :: nat) = of_char c + 32"
    using small by (simp only: of_char_of) simp
  ultimately show ?thesis using True by simp
qed

lemma code_eq_iff: "(of_char c :: nat) = of_char x \<longleftrightarrow> c = x"
  by simp

lemma toLowerCase_char_m: "toLowerCase_char c = CHR ''m'' \<longleftrightarrow> c = CHR ''m'' \<or> c = CHR ''M''"
proof -
  have "c = CHR ''M'' \<longleftrightarrow> (of_char c :: nat) = 77"
    using code_eq_iff [of c "CHR ''M''"] by simp
  moreover have "c = CHR ''m'' \<longleftrightarrow> (of_char c :: nat) = 109"
    using code_eq_iff [of c "CHR ''m''"] by simp
  ultimately show ?thesis
    unfolding toLowerCase_char_eq by (auto simp: isUpperCase_def)
qed

lemma toLowerCase_char_d: "toLowerCase_char c = CHR ''d'' \<longleftrightarrow> c = CHR ''d'' \<or> c = CHR ''D''"
proof -
  have "c = CHR ''D'' \<longleftrightarrow> (of_char c :: nat) = 68"
    using code_eq_iff [of c "CHR ''D''"] by simp
  moreover have "c = CHR ''d'' \<longleftrightarrow> (of_char c :: nat) = 100"
    using code_eq_iff [of c "CHR ''d''"] by simp
  ultimately show ?thesis
    unfolding toLowerCase_char_eq by (auto simp: isUpperCase_def)
qed

lemma toLowerCase_char_dot: "toLowerCase_char c = CHR ''.'' \<longleftrightarrow> c = CHR ''.''"
proof -
  have "c = CHR ''.'' \<longleftrightarrow> (of_char c :: nat) = 46"
    using code_eq_iff [of c "CHR ''.''"] by simp
  then show ?thesis
    unfolding toLowerCase_char_eq by (auto simp: isUpperCase_def)
qed

lemma length_three: "length xs = Suc (Suc (Suc 0)) \<Longrightarrow> \<exists>a b c. xs = [a, b, c]"
  by (auto simp: length_Suc_conv)

lemma endsWith_md_iff: "endsWith (toLowerCase n) ''.md'' \<longleftrightarrow> spec_has_md_suffix n"
proof (cases "3 \<le> length n")
  case False
  then show ?thesis by (simp add: endsWith_def toLowerCase_def spec_has_md_suffix_def)
next
  case True
  then have "length (drop (length n - 3) n) = Suc (Suc (Suc 0))" by simp
  from length_three [OF this] obtain a b c where abc: "drop (length n - 3) n = [a, b, c]"
    by blast
  have "endsWith (toLowerCase n) ''.md'' \<longleftrightarrow> map toLowerCase_char (drop (length n - 3) n) = ''.md''"
    using True by (simp add: endsWith_def toLowerCase_def drop_map numeral_3_eq_3)
  also have "\<dots> \<longleftrightarrow> a = CHR ''.'' \<and> (b = CHR ''m'' \<or> b = CHR ''M'') \<and> (c = CHR ''d'' \<or> c = CHR ''D'')"
    unfolding abc by (simp add: toLowerCase_char_dot toLowerCase_char_m toLowerCase_char_d)
  also have "\<dots> \<longleftrightarrow> spec_has_md_suffix n"
    using True unfolding spec_has_md_suffix_def abc by auto
  finally show ?thesis .
qed

lemma prefix_take_iff: "prefix p s \<longleftrightarrow> take (length p) s = p"
  by (metis append_eq_conv_conj prefix_def append_take_drop_id)

lemma occurrences_drop: "occurrences p s = 0 \<Longrightarrow> occurrences p (drop k s) = 0"
proof (induction s arbitrary: k)
  case Nil
  show ?case by simp
next
  case (Cons c cs)
  then show ?case by (cases k) (auto split: if_splits)
qed

lemma spec_substitute_absent: "occurrences p s = 0 \<Longrightarrow> spec_substitute p v s = s"
  by (induction s) (auto split: if_splits)

lemma replace_eq_spec_substitute:
  assumes "p \<noteq> []"
  shows "occurrences p s \<le> 1 \<Longrightarrow> replace p r s = spec_substitute p r s"
proof (induction s)
  case Nil
  with assms show ?case by simp
next
  case (Cons c cs)
  show ?case
  proof (cases "take (length p) (c # cs) = p")
    case True
    with Cons.prems have "occurrences p cs = 0" by simp
    then have "occurrences p (drop (length p - 1) cs) = 0" by (rule occurrences_drop)
    moreover have "drop (length p) (c # cs) = drop (length p - 1) cs"
      using assms by (cases p) simp_all
    ultimately have "spec_substitute p r (drop (length p) (c # cs)) = drop (length p) (c # cs)"
      by (simp add: spec_substitute_absent)
    with True assms show ?thesis by (simp add: prefix_take_iff)
  next
    case False
    with Cons.prems have "occurrences p cs \<le> 1" by simp
    with Cons.IH False show ?thesis by (simp add: prefix_take_iff)
  qed
qed

lemma spec_strip_leading_eq: "spec_strip_leading s = dropWhile (\<lambda>c. c = CHR ''/'') s"
  by (induction s) simp_all

lemma strip_slashes_eq_spec: "strip_slashes s = spec_strip_separators s"
  by (simp add: strip_slashes_def spec_strip_separators_def spec_strip_leading_eq)

text \<open>
  C4, as amended. For a template that holds \<open>{date}\<close> at most once after trimming, the
  destination path is the one the specification describes, once the output folder has
  been trimmed of white space as well: \<open>{date}\<close> becomes the date (the text of the clock
  before its \<open>T\<close>), \<open>.md\<close> is appended unless the name ends with it in any letter case, the
  trimmed folder loses the slashes at its ends, and folder and name are joined with one
  slash, the name standing alone when the folder is empty.
\<close>

theorem outputPath_resolves_destination:
  "occurrences ''{date}'' (trim (outputFileName settings)) \<le> 1 \<Longrightarrow>
   outputPath_of settings now =
     spec_resolveDestination (settings\<lparr>outputFolder := trim (outputFolder settings)\<rparr>) (today now)"
  by (simp add: outputPath_of_def outputFileName_of_def folderPath_of_def spec_resolveDestination_def
      Let_def endsWith_md_iff replace_eq_spec_substitute strip_slashes_eq_spec)

theorem outputPath_resolves_destination_witness:
  "occurrences ''{date}'' (trim (outputFileName (DEFAULT_SETTINGS\<lparr>outputFileName := ''out-{date}.md''\<rparr>))) = 1
   \<and> outputPath_of (DEFAULT_SETTINGS\<lparr>outputFileName := ''out-{date}.md''\<rparr>) ''2024-01-01T09:30:00.000Z''
     = ''merged/out-2024-01-01.md''
   \<and> spec_resolveDestination
       (DEFAULT_SETTINGS\<lparr>outputFileName := ''out-{date}.md'', outputFolder := trim ''merged''\<rparr>)
       (today ''2024-01-01T09:30:00.000Z'') = ''merged/out-2024-01-01.md''"
proof -
  have once: "occurrences ''{date}'' (trim (outputFileName (DEFAULT_SETTINGS\<lparr>outputFileName := ''out-{date}.md''\<rparr>))) = 1"
    by (simp add: trim_def isWhiteSpace_def)
  then have le: "occurrences ''{date}'' (trim (outputFileName (DEFAULT_SETTINGS\<lparr>outputFileName := ''out-{date}.md''\<rparr>))) \<le> 1"
    by simp
  have "outputPath_of (DEFAULT_SETTINGS\<lparr>outputFileName := ''out-{date}.md''\<rparr>) ''2024-01-01T09:30:00.000Z''
     = ''merged/out-2024-01-01.md''"
    by (simp add: outputPath_of_def outputFileName_of_def folderPath_of_def DEFAULT_SETTINGS_def
        today_def trim_def isWhiteSpace_def strip_slashes_def endsWith_def toLowerCase_def
        toLowerCase_char_def isUpperCase_def Let_def)
  with once outputPath_resolves_destination [OF le, of "''2024-01-01T09:30:00.000Z''"]
  show ?thesis by (simp add: DEFAULT_SETTINGS_def)
qed

text \<open>
  C4 as stated fails: it strips the separators from the output folder as configured, and
  the code trims the folder of white space first. For the output folder \<open>merged\<close> followed
  by a space the code gives \<open>merged/x.md\<close>; the stated steps keep the space.
\<close>

theorem outputPath_untrimmed_folder_counterexample:
  "outputPath_of (DEFAULT_SETTINGS\<lparr>outputFolder := ''merged '', outputFileName := ''x''\<rparr>)
       ''2024-01-01T09:30:00.000Z'' = ''merged/x.md''
   \<and> outputPath_of (DEFAULT_SETTINGS\<lparr>outputFolder := ''merged '', outputFileName := ''x''\<rparr>)
       ''2024-01-01T09:30:00.000Z'' \<noteq>
     spec_resolveDestination (DEFAULT_SETTINGS\<lparr>outputFolder := ''merged '', outputFileName := ''x''\<rparr>)
       (today ''2024-01-01T09:30:00.000Z'')"
  by (simp add: outputPath_of_def outputFileName_of_def folderPath_of_def DEFAULT_SETTINGS_def
      today_def trim_def isWhiteSpace_def strip_slashes_def endsWith_def toLowerCase_def
      toLowerCase_char_def isUpperCase_def Let_def spec_resolveDestination_def
      spec_has_md_suffix_def spec_strip_separators_def)

text \<open>
  Outside the amended claim: in a template that holds \<open>{date}\<close> twice, the code replaces
  the first only.
\<close>

lemma outputPath_two_placeholders:
  "outputPath_of (DEFAULT_SETTINGS\<lparr>outputFileName := ''{date}-{date}''\<rparr>)
     ''2024-01-01T09:30:00.000Z'' = ''merged/2024-01-01-{date}.md''"
  by (simp add: outputPath_of_def outputFileName_of_def folderPath_of_def DEFAULT_SETTINGS_def
      today_def trim_def isWhiteSpace_def strip_slashes_def endsWith_def toLowerCase_def
      toLowerCase_char_def isUpperCase_def Let_def)

section \<open>What creating the output folder does\<close>

lemma ensure_parts_calls:
  "\<exists>new. snd (snd (ensure_parts vault parts cur v calls)) = calls @ new \<and>
     subseq new (map CreateFolder (currentPaths parts cur))"
proof (induction parts arbitrary: cur v calls)
  case Nil
  show ?case by simp
next
  case (Cons part parts)
  show ?case
  proof (cases "getFolderByPath vault v (next_path cur part)")
    case (Some d)
    from Cons.IH [of "next_path cur part" v calls] obtain new where
      "snd (snd (ensure_parts vault parts (next_path cur part) v calls)) = calls @ new"
      "subseq new (map CreateFolder (currentPaths parts (next_path cur part)))"
      by blast
    with Some show ?thesis by auto
  next
    case None
    show ?thesis
    proof (cases "createFolder vault v (next_path cur part)")
      case (Inl e)
      with None show ?thesis by simp
    next
      case (Inr v')
      from Cons.IH [of "next_path cur part" v' "calls @ [CreateFolder (next_path cur part)]"] obtain new where
        "snd (snd (ensure_parts vault parts (next_path cur part) v' (calls @ [CreateFolder (next_path cur part)])))
           = (calls @ [CreateFolder (next_path cur part)]) @ new"
        "subseq new (map CreateFolder (currentPaths parts (next_path cur part)))"
        by blast
      with None Inr show ?thesis by auto
    qed
  qed
qed

lemma ensure_parts_keeps:
  assumes "\<And>v p v'. createFolder vault v p = Inr v' \<Longrightarrow> Q v \<Longrightarrow> Q v'"
  shows "Q v \<Longrightarrow> Q (fst (snd (ensure_parts vault parts cur v calls)))"
proof (induction parts arbitrary: cur v calls)
  case Nil
  then show ?case by simp
next
  case (Cons part parts)
  show ?case
  proof (cases "getFolderByPath vault v (next_path cur part)")
    case (Some d)
    with Cons show ?thesis by simp
  next
    case None
    show ?thesis
    proof (cases "createFolder vault v (next_path cur part)")
      case (Inl e)
      with None Cons.prems show ?thesis by simp
    next
      case (Inr v')
      with assms Cons.prems have "Q v'" by blast
      from Cons.IH [OF this] None Inr show ?thesis by simp
    qed
  qed
qed

lemma ensure_parts_persist:
  assumes "createFolder_creates vault" and "getFolderByPath vault v q \<noteq> None"
  shows "getFolderByPath vault (fst (snd (ensure_parts vault parts cur v calls))) q \<noteq> None"
proof (rule ensure_parts_keeps [where Q = "\<lambda>v. getFolderByPath vault v q \<noteq> None"])
  fix v p v'
  assume "createFolder vault v p = Inr v'" and "getFolderByPath vault v q \<noteq> None"
  with assms(1) show "getFolderByPath vault v' q \<noteq> None"
    unfolding createFolder_creates_def by blast
next
  show "getFolderByPath vault v q \<noteq> None" by (rule assms(2))
qed

lemma ensure_parts_only_absent:
  assumes "createFolder_creates vault"
  shows "snd (snd (ensure_parts vault parts cur v calls)) = calls @ new \<Longrightarrow>
    CreateFolder q \<in> set new \<Longrightarrow> getFolderByPath vault v q = None"
proof (induction parts arbitrary: cur v calls new)
  case Nil
  then show ?case by simp
next
  case (Cons part parts)
  show ?case
  proof (cases "getFolderByPath vault v (next_path cur part)")
    case (Some d)
    with Cons.prems have "snd (snd (ensure_parts vault parts (next_path cur part) v calls)) = calls @ new"
      by simp
    from Cons.IH [OF this Cons.prems(2)] show ?thesis .
  next
    case None
    show ?thesis
    proof (cases "createFolder vault v (next_path cur part)")
      case (Inl e)
      with None Cons.prems show ?thesis by auto
    next
      case (Inr v')
      obtain new' where new':
        "snd (snd (ensure_parts vault parts (next_path cur part) v' (calls @ [CreateFolder (next_path cur part)])))
           = (calls @ [CreateFolder (next_path cur part)]) @ new'"
        using ensure_parts_calls [of vault parts "next_path cur part" v' "calls @ [CreateFolder (next_path cur part)]"]
        by blast
      with None Inr Cons.prems(1) have new: "new = CreateFolder (next_path cur part) # new'"
        by simp
      show ?thesis
      proof (cases "q = next_path cur part")
        case True
        with None show ?thesis by simp
      next
        case False
        with new Cons.prems(2) have "CreateFolder q \<in> set new'" by simp
        from Cons.IH [OF new' this] have "getFolderByPath vault v' q = None" .
        with assms Inr show ?thesis
          unfolding createFolder_creates_def by blast
      qed
    qed
  qed
qed

lemma ensure_parts_all_exist:
  assumes "createFolder_creates vault"
  shows "fst (ensure_parts vault parts cur v calls) = None \<Longrightarrow> q \<in> set (currentPaths parts cur) \<Longrightarrow>
    getFolderByPath vault (fst (snd (ensure_parts vault parts cur v calls))) q \<noteq> None"
proof (induction parts arbitrary: cur v calls)
  case Nil
  then show ?case by simp
next
  case (Cons part parts)
  show ?case
  proof (cases "getFolderByPath vault v (next_path cur part)")
    case (Some d)
    show ?thesis
    proof (cases "q = next_path cur part")
      case True
      with Some have "getFolderByPath vault v q \<noteq> None" by simp
      from ensure_parts_persist [OF assms this] show ?thesis .
    next
      case False
      with Cons.prems Some Cons.IH [of "next_path cur part" v calls] show ?thesis by simp
    qed
  next
    case None
    show ?thesis
    proof (cases "createFolder vault v (next_path cur part)")
      case (Inl e)
      with None Cons.prems show ?thesis by simp
    next
      case (Inr v')
      show ?thesis
      proof (cases "q = next_path cur part")
        case True
        with assms Inr have "getFolderByPath vault v' q \<noteq> None"
          unfolding createFolder_creates_def by blast
        from ensure_parts_persist [OF assms this, of parts "next_path cur part"
            "calls @ [CreateFolder (next_path cur part)]"] None Inr
        show ?thesis by simp
      next
        case False
        with Cons.prems None Inr
          Cons.IH [of "next_path cur part" v' "calls @ [CreateFolder (next_path cur part)]"]
        show ?thesis by simp
      qed
    qed
  qed
qed

lemma ensure_parts_noop:
  "(\<forall>q \<in> set (currentPaths parts cur). getFolderByPath vault v q \<noteq> None) \<Longrightarrow>
   ensure_parts vault parts cur v calls = (None, v, calls)"
proof (induction parts arbitrary: cur)
  case Nil
  show ?case by simp
next
  case (Cons part parts)
  then show ?case by auto
qed

lemma split_not_Nil: "split sep s \<noteq> []"
  by (induction s) (auto split: list.splits)

lemma join_parts_Cons: "parts \<noteq> [] \<Longrightarrow> join_parts (part # parts) = part @ ''/'' @ join_parts parts"
  by (cases parts) simp_all

lemma join_parts_split: "join_parts (split CHR ''/'' s) = s"
proof (induction s)
  case Nil
  show ?case by simp
next
  case (Cons c cs)
  show ?case
  proof (cases "c = CHR ''/''")
    case True
    with Cons split_not_Nil [of "CHR ''/''" cs] show ?thesis
      by (simp add: join_parts_Cons)
  next
    case False
    obtain piece pieces where sp: "split CHR ''/'' cs = piece # pieces"
      using split_not_Nil [of "CHR ''/''" cs] by (cases "split CHR ''/'' cs") auto
    with Cons have "join_parts (piece # pieces) = cs" by simp
    with False sp show ?thesis by (cases pieces) simp_all
  qed
qed

lemma prefixes_tl: "prefixes xs = [] # tl (prefixes xs)"
  by (cases xs) simp_all

lemma tl_prefixes_not_Nil: "pre \<in> set (tl (prefixes xs)) \<Longrightarrow> pre \<noteq> []"
  by (cases xs) auto

lemma currentPaths_prefixes:
  "cur \<noteq> [] \<Longrightarrow>
   currentPaths parts cur = map (\<lambda>pre. cur @ ''/'' @ join_parts pre) (tl (prefixes parts))"
proof (induction parts arbitrary: cur)
  case Nil
  show ?case by simp
next
  case (Cons part parts)
  have ext: "next_path cur part = cur @ ''/'' @ part" "next_path cur part \<noteq> []"
    using Cons.prems by (simp_all add: next_path_def)
  have "tl (prefixes (part # parts)) = [part] # map ((#) part) (tl (prefixes parts))"
    using prefixes_tl [of parts] by (simp, metis list.simps(9))
  moreover have "map (\<lambda>pre. cur @ ''/'' @ join_parts pre) (map ((#) part) (tl (prefixes parts)))
      = map (\<lambda>pre. next_path cur part @ ''/'' @ join_parts pre) (tl (prefixes parts))"
    by (simp add: ext join_parts_Cons tl_prefixes_not_Nil)
  ultimately show ?case
    using Cons.IH [OF ext(2)] by (simp add: ext)
qed

lemma folder_chain_prefixes:
  assumes "p \<noteq> []" and "\<not> startsWith p ''/''"
  shows "folder_chain p = map join_parts (tl (prefixes (split CHR ''/'' p)))"
proof (cases p)
  case Nil
  with assms(1) show ?thesis by simp
next
  case (Cons c cs)
  with assms(2) have c: "c \<noteq> CHR ''/''" by (simp add: startsWith_def)
  obtain piece pieces where sp: "split CHR ''/'' cs = piece # pieces"
    using split_not_Nil [of "CHR ''/''" cs] by (cases "split CHR ''/'' cs") auto
  with c Cons have parts: "split CHR ''/'' p = (c # piece) # pieces" by simp
  have chain: "folder_chain p = (c # piece) # currentPaths pieces (c # piece)"
    using assms(1) by (simp add: folder_chain_def parts next_path_def)
  have "tl (prefixes ((c # piece) # pieces)) = [c # piece] # map ((#) (c # piece)) (tl (prefixes pieces))"
    using prefixes_tl [of pieces] by (simp, metis list.simps(9))
  moreover have "map join_parts (map ((#) (c # piece)) (tl (prefixes pieces)))
      = map (\<lambda>pre. (c # piece) @ ''/'' @ join_parts pre) (tl (prefixes pieces))"
    by (simp add: join_parts_Cons tl_prefixes_not_Nil)
  moreover have "currentPaths pieces (c # piece)
      = map (\<lambda>pre. (c # piece) @ ''/'' @ join_parts pre) (tl (prefixes pieces))"
    by (rule currentPaths_prefixes) simp
  ultimately have "map join_parts (tl (prefixes ((c # piece) # pieces)))
      = (c # piece) # currentPaths pieces (c # piece)"
    by simp
  with chain show ?thesis by (simp only: parts)
qed
lemma ensureFolderExists_calls:
  assumes "ensureFolderExists vault p v [] = (r, v', calls)"
  shows "subseq calls (map CreateFolder (folder_chain p))"
proof (cases "p = []")
  case True
  with assms show ?thesis by (simp add: ensureFolderExists_def folder_chain_def)
next
  case False
  with assms ensure_parts_calls [of vault "split CHR ''/'' p" "[]" v "[]"]
  show ?thesis by (simp add: ensureFolderExists_def folder_chain_def)
qed

lemma ensureFolderExists_only_absent:
  assumes "createFolder_creates vault"
    and "ensureFolderExists vault p v [] = (r, v', calls)"
    and "CreateFolder q \<in> set calls"
  shows "getFolderByPath vault v q = None"
proof (cases "p = []")
  case True
  with assms show ?thesis by (simp add: ensureFolderExists_def)
next
  case False
  with assms(2) have "snd (snd (ensure_parts vault (split CHR ''/'' p) [] v [])) = [] @ calls"
    by (simp add: ensureFolderExists_def)
  from ensure_parts_only_absent [OF assms(1) this assms(3)] show ?thesis .
qed

lemma ensureFolderExists_all_exist:
  assumes "createFolder_creates vault"
    and "ensureFolderExists vault p v [] = (None, v', calls)"
    and "q \<in> set (folder_chain p)"
  shows "getFolderByPath vault v' q \<noteq> None"
proof (cases "p = []")
  case True
  with assms show ?thesis by (simp add: folder_chain_def)
next
  case False
  with assms(2) have run: "ensure_parts vault (split CHR ''/'' p) [] v [] = (None, v', calls)"
    by (simp add: ensureFolderExists_def)
  from False assms(3) have "q \<in> set (currentPaths (split CHR ''/'' p) [])"
    by (simp add: folder_chain_def)
  with ensure_parts_all_exist [OF assms(1), of "split CHR ''/'' p" "[]" v "[]" q] run
  show ?thesis by simp
qed

lemma ensureFolderExists_noop:
  assumes "\<forall>q \<in> set (folder_chain p). getFolderByPath vault v q \<noteq> None"
  shows "ensureFolderExists vault p v calls = (None, v, calls)"
proof (cases "p = []")
  case True
  then show ?thesis by (simp add: ensureFolderExists_def)
next
  case False
  with assms have "\<forall>q \<in> set (currentPaths (split CHR ''/'' p) []). getFolderByPath vault v q \<noteq> None"
    by (simp add: folder_chain_def)
  from ensure_parts_noop [OF this] False show ?thesis
    by (simp add: ensureFolderExists_def)
qed

lemma ensureFolderExists_keeps:
  assumes "\<And>u q u'. createFolder vault u q = Inr u' \<Longrightarrow> Q u \<Longrightarrow> Q u'"
    and "ensureFolderExists vault p v [] = (r, v', calls)"
    and "Q v"
  shows "Q v'"
proof (cases "p = []")
  case True
  with assms(2,3) show ?thesis by (simp add: ensureFolderExists_def)
next
  case False
  with assms(2) have "fst (snd (ensure_parts vault (split CHR ''/'' p) [] v [])) = v'"
    by (simp add: ensureFolderExists_def)
  with ensure_parts_keeps [of vault Q v "split CHR ''/'' p" "[]" "[]", OF assms(1) assms(3)]
  show ?thesis by simp
qed

lemma subseq_CreateFolder:
  "subseq calls (map CreateFolder ps) \<Longrightarrow> c \<in> set calls \<Longrightarrow> \<exists>q. c = CreateFolder q"
  using list_emb_set [of "(=)" calls "map CreateFolder ps" c] by auto

lemma createFolder_creates_memory_vault: "createFolder_creates memory_vault"
  by (auto simp: createFolder_creates_def memory_vault_def split: if_splits)

lemma merge_after_ensure:
  assumes "source_folder vault settings v = Some folder"
    and "ensureFolderExists vault (folderPath_of settings) v [] = (None, v1, calls)"
  shows "mergeMarkdownFiles vault minimatch localeCompare now settings v =
    merge_collected vault minimatch localeCompare now settings folder v1 calls"
  using assms by (simp add: mergeMarkdownFiles_def)

lemma merge_collected_nothing:
  assumes "collectMarkdownFiles minimatch localeCompare settings folder (outputPath_of settings now)
      (excludedPatterns_of settings) = []"
  shows "merge_collected vault minimatch localeCompare now settings folder v calls =
    (None, v, calls @ [Notice ''No markdown files found to merge.''])"
  using assms by (simp add: merge_collected_def)

section \<open>The claims on the output folder and on the merge\<close>

text \<open>
  C8. On a path that is not empty, \<open>ensureFolderExists\<close> asks the host to create folders
  of the chain only, each at most once and from left to right, and only folders that were
  absent when it started; for a path that does not start with a slash the chain is the
  list of the non-empty prefixes of the list of its parts, each joined with slashes. When
  no creation fails, every folder of the chain exists afterwards and a second run on the
  same path makes no call and leaves the vault as it is. The host is one where a created
  folder is found afterwards and creating a folder removes no other.
\<close>

theorem ensureFolderExists_idempotent:
  assumes "createFolder_creates vault"
    and "p \<noteq> []"
    and "ensureFolderExists vault p v [] = (r, v', calls)"
  shows "subseq calls (map CreateFolder (folder_chain p))
    \<and> (\<forall>q. CreateFolder q \<in> set calls \<longrightarrow> getFolderByPath vault v q = None)
    \<and> (\<not> startsWith p ''/'' \<longrightarrow>
         folder_chain p = map join_parts (tl (prefixes (split CHR ''/'' p))))
    \<and> (r = None \<longrightarrow>
         (\<forall>q \<in> set (folder_chain p). getFolderByPath vault v' q \<noteq> None)
         \<and> ensureFolderExists vault p v' [] = (None, v', []))"
proof (intro conjI impI allI)
  show "subseq calls (map CreateFolder (folder_chain p))"
    by (rule ensureFolderExists_calls [OF assms(3)])
next
  fix q
  assume "CreateFolder q \<in> set calls"
  from ensureFolderExists_only_absent [OF assms(1,3) this]
  show "getFolderByPath vault v q = None" .
next
  assume "\<not> startsWith p ''/''"
  from folder_chain_prefixes [OF assms(2) this]
  show "folder_chain p = map join_parts (tl (prefixes (split CHR ''/'' p)))" .
next
  assume "r = None"
  with assms(3) have run: "ensureFolderExists vault p v [] = (None, v', calls)" by simp
  show all: "\<forall>q \<in> set (folder_chain p). getFolderByPath vault v' q \<noteq> None"
    using ensureFolderExists_all_exist [OF assms(1) run] by blast
  show "ensureFolderExists vault p v' [] = (None, v', [])"
    by (rule ensureFolderExists_noop [OF all])
qed

theorem ensureFolderExists_idempotent_witness:
  "ensureFolderExists memory_vault ''a/b'' \<lparr>folders = [], documents = []\<rparr> [] =
     (None, \<lparr>folders = [''a'', ''a/b''], documents = []\<rparr>, [CreateFolder ''a'', CreateFolder ''a/b''])
   \<and> folder_chain ''a/b'' = [''a'', ''a/b'']
   \<and> ensureFolderExists memory_vault ''a/b'' \<lparr>folders = [''a'', ''a/b''], documents = []\<rparr> [] =
     (None, \<lparr>folders = [''a'', ''a/b''], documents = []\<rparr>, [])"
proof -
  have ne: "''a/b'' \<noteq> []" by simp
  have run: "ensureFolderExists memory_vault ''a/b'' \<lparr>folders = [], documents = []\<rparr> [] =
     (None, \<lparr>folders = [''a'', ''a/b''], documents = []\<rparr>, [CreateFolder ''a'', CreateFolder ''a/b''])"
    by (simp add: ensureFolderExists_def memory_vault_def next_path_def)
  have chain: "folder_chain ''a/b'' = [''a'', ''a/b'']"
    by (simp add: folder_chain_def next_path_def)
  from ensureFolderExists_idempotent [OF createFolder_creates_memory_vault ne run]
  have "ensureFolderExists memory_vault ''a/b'' \<lparr>folders = [''a'', ''a/b''], documents = []\<rparr> [] =
     (None, \<lparr>folders = [''a'', ''a/b''], documents = []\<rparr>, [])"
    by blast
  with run chain show ?thesis by blast
qed
text \<open>
  C5. When the source folder is found, the output folder is created without an error and
  the collector returns no file, the merge ends with the notice that there is nothing to
  merge, and no error escapes. Every call made before the notice creates a folder: no file
  is created and none is modified. On a host where creating a folder leaves the files as
  they are, every file reads the same after the run as before, and the same files are
  found.
\<close>

theorem merge_nothing_to_merge:
  assumes "source_folder vault settings v = Some folder"
    and "ensureFolderExists vault (folderPath_of settings) v [] = (None, v1, calls)"
    and "collectMarkdownFiles minimatch localeCompare settings folder (outputPath_of settings now)
      (excludedPatterns_of settings) = []"
  shows "mergeMarkdownFiles vault minimatch localeCompare now settings v =
      (None, v1, calls @ [Notice ''No markdown files found to merge.''])
    \<and> (\<forall>c \<in> set calls. \<exists>q. c = CreateFolder q)
    \<and> ((\<forall>u q u'. createFolder vault u q = Inr u' \<longrightarrow>
           read vault u' = read vault u \<and> getFileByPath vault u' = getFileByPath vault u) \<longrightarrow>
         read vault v1 = read vault v \<and> getFileByPath vault v1 = getFileByPath vault v)"
proof (intro conjI impI ballI)
  show "mergeMarkdownFiles vault minimatch localeCompare now settings v =
      (None, v1, calls @ [Notice ''No markdown files found to merge.''])"
    unfolding merge_after_ensure [OF assms(1,2)] by (rule merge_collected_nothing [OF assms(3)])
next
  fix c
  assume "c \<in> set calls"
  from subseq_CreateFolder [OF ensureFolderExists_calls [OF assms(2)] this]
  show "\<exists>q. c = CreateFolder q" .
next
  assume frame: "\<forall>u q u'. createFolder vault u q = Inr u' \<longrightarrow>
    read vault u' = read vault u \<and> getFileByPath vault u' = getFileByPath vault u"
  show "read vault v1 = read vault v"
    by (rule ensureFolderExists_keeps [where Q = "\<lambda>u. read vault u = read vault v", OF _ assms(2)])
      (simp_all add: frame)
  show "getFileByPath vault v1 = getFileByPath vault v"
    by (rule ensureFolderExists_keeps
        [where Q = "\<lambda>u. getFileByPath vault u = getFileByPath vault v", OF _ assms(2)])
      (simp_all add: frame)
qed

theorem merge_nothing_to_merge_witness:
  "mergeMarkdownFiles memory_vault literal_match codeunit_compare ''2024-01-01T09:30:00.000Z''
     (DEFAULT_SETTINGS\<lparr>excludedFiles := ''a.md, B.md''\<rparr>) example_memory =
   (None, example_memory\<lparr>folders := [''a'', ''merged'']\<rparr>,
    [CreateFolder ''merged'', Notice ''No markdown files found to merge.''])"
proof -
  let ?s = "DEFAULT_SETTINGS\<lparr>excludedFiles := ''a.md, B.md''\<rparr>"
  have src: "source_folder memory_vault ?s example_memory =
      Some (TFolder ''/'' '''' [File (md_file '''' ''B''), File (md_file '''' ''a'')])"
    by (simp add: source_folder_def DEFAULT_SETTINGS_def trim_def memory_vault_def example_memory_def)
  have fp: "folderPath_of ?s = ''merged''"
    by (simp add: folderPath_of_def DEFAULT_SETTINGS_def trim_def strip_slashes_def isWhiteSpace_def)
  have ens: "ensureFolderExists memory_vault (folderPath_of ?s) example_memory [] =
      (None, example_memory\<lparr>folders := [''a'', ''merged'']\<rparr>, [CreateFolder ''merged''])"
    unfolding fp
    by (simp add: ensureFolderExists_def memory_vault_def next_path_def example_memory_def)
  have pats: "excludedPatterns_of ?s = [''a.md'', ''B.md'']"
    by (simp add: excludedPatterns_of_def DEFAULT_SETTINGS_def trim_def isWhiteSpace_def)
  have "set (collectMarkdownFiles literal_match codeunit_compare ?s
      (TFolder ''/'' '''' [File (md_file '''' ''B''), File (md_file '''' ''a'')])
      (outputPath_of ?s ''2024-01-01T09:30:00.000Z'') (excludedPatterns_of ?s)) = {}"
    unfolding set_collectMarkdownFiles pats
    by (auto simp: reachable_def DEFAULT_SETTINGS_def selected_def md_file_def literal_match_def)
  then have none: "collectMarkdownFiles literal_match codeunit_compare ?s
      (TFolder ''/'' '''' [File (md_file '''' ''B''), File (md_file '''' ''a'')])
      (outputPath_of ?s ''2024-01-01T09:30:00.000Z'') (excludedPatterns_of ?s) = []"
    by simp
  from merge_nothing_to_merge [OF src ens none] show ?thesis by simp
qed

text \<open>
  C10. When the source folder is found and the creation of the output folder throws no
  error, the rest of the run, from the collection of the files on, starts in the vault
  state that \<open>ensureFolderExists\<close> leaves and after its calls: in that state every folder of
  the chain of the output folder exists. When the collector then returns no file, this is
  the final state: the folders have been created, and the only other call is the notice.
\<close>

theorem merge_creates_folders_first:
  assumes "createFolder_creates vault"
    and "source_folder vault settings v = Some folder"
    and "ensureFolderExists vault (folderPath_of settings) v [] = (None, v1, calls)"
  shows "mergeMarkdownFiles vault minimatch localeCompare now settings v =
      merge_collected vault minimatch localeCompare now settings folder v1 calls
    \<and> (\<forall>q \<in> set (folder_chain (folderPath_of settings)). getFolderByPath vault v1 q \<noteq> None)
    \<and> (collectMarkdownFiles minimatch localeCompare settings folder (outputPath_of settings now)
          (excludedPatterns_of settings) = [] \<longrightarrow>
        mergeMarkdownFiles vault minimatch localeCompare now settings v =
          (None, v1, calls @ [Notice ''No markdown files found to merge.'']))"
proof (intro conjI impI ballI)
  show "mergeMarkdownFiles vault minimatch localeCompare now settings v =
      merge_collected vault minimatch localeCompare now settings folder v1 calls"
    by (rule merge_after_ensure [OF assms(2,3)])
next
  fix q
  assume "q \<in> set (folder_chain (folderPath_of settings))"
  from ensureFolderExists_all_exist [OF assms(1,3) this]
  show "getFolderByPath vault v1 q \<noteq> None" .
next
  assume "collectMarkdownFiles minimatch localeCompare settings folder (outputPath_of settings now)
          (excludedPatterns_of settings) = []"
  from merge_collected_nothing [OF this]
  show "mergeMarkdownFiles vault minimatch localeCompare now settings v =
      (None, v1, calls @ [Notice ''No markdown files found to merge.''])"
    unfolding merge_after_ensure [OF assms(2,3)] .
qed

theorem merge_creates_folders_first_witness:
  "getFolderByPath memory_vault \<lparr>folders = [], documents = []\<rparr> ''out/merged'' = None
   \<and> mergeMarkdownFiles memory_vault literal_match codeunit_compare ''2024-01-01T09:30:00.000Z''
     (DEFAULT_SETTINGS\<lparr>outputFolder := ''/out/merged/''\<rparr>) \<lparr>folders = [], documents = []\<rparr> =
     (None, \<lparr>folders = [''out'', ''out/merged''], documents = []\<rparr>,
      [CreateFolder ''out'', CreateFolder ''out/merged'', Notice ''No markdown files found to merge.''])
   \<and> getFolderByPath memory_vault \<lparr>folders = [''out'', ''out/merged''], documents = []\<rparr> ''out/merged''
       \<noteq> None"
proof -
  let ?s = "DEFAULT_SETTINGS\<lparr>outputFolder := ''/out/merged/''\<rparr>"
  let ?m = "\<lparr>folders = [], documents = []\<rparr>"
  have src: "source_folder memory_vault ?s ?m = Some (TFolder ''/'' '''' [])"
    by (simp add: source_folder_def DEFAULT_SETTINGS_def trim_def memory_vault_def)
  have fp: "folderPath_of ?s = ''out/merged''"
    by (simp add: folderPath_of_def trim_def strip_slashes_def isWhiteSpace_def)
  have ens: "ensureFolderExists memory_vault (folderPath_of ?s) ?m [] =
      (None, \<lparr>folders = [''out'', ''out/merged''], documents = []\<rparr>,
       [CreateFolder ''out'', CreateFolder ''out/merged''])"
    unfolding fp by (simp add: ensureFolderExists_def memory_vault_def next_path_def)
  have "set (collectMarkdownFiles literal_match codeunit_compare ?s (TFolder ''/'' '''' [])
      (outputPath_of ?s ''2024-01-01T09:30:00.000Z'') (excludedPatterns_of ?s)) = {}"
    unfolding set_collectMarkdownFiles by (simp add: reachable_def)
  then have none: "collectMarkdownFiles literal_match codeunit_compare ?s (TFolder ''/'' '''' [])
      (outputPath_of ?s ''2024-01-01T09:30:00.000Z'') (excludedPatterns_of ?s) = []"
    by simp
  have chain: "''out/merged'' \<in> set (folder_chain (folderPath_of ?s))"
    unfolding fp by (simp add: folder_chain_def next_path_def)
  have before: "getFolderByPath memory_vault ?m ''out/merged'' = None"
    by (simp add: memory_vault_def)
  from merge_creates_folders_first [OF createFolder_creates_memory_vault src ens,
      of literal_match codeunit_compare "''2024-01-01T09:30:00.000Z''"] none chain before
  show ?thesis by auto
qed

end
